theory Spec2Isabelle
  imports Main
begin

section \<open>Values of the host language\<close>

text \<open>
  The planner is one React component, \<^verbatim>\<open>App\<close> of \<^verbatim>\<open>src/index.tsx\<close>. Its state is a handful of
  \<^verbatim>\<open>useState\<close> cells, and its only logic is the submit handler and the JSX that
  renders the state. The handler's effects (state writes, the file read, the request to the
  generation service) are modelled as an explicit list of effects in program order; the
  file reader, the service and \<^verbatim>\<open>JSON.parse\<close> are parameters of the handler, since they
  belong to the platform and not to the repository.

  A JavaScript number is \<^verbatim>\<open>NaN\<close>, an infinity, or a finite double. A finite double is
  kept as the shortest decimal \<open>m * 10 ^ e\<close> that denotes it, the one \<^verbatim>\<open>toString\<close> prints,
  and zero as \<open>Finite 0 0\<close> (the sign of zero shows nowhere in this program). The
  conversions from text round to the nearest double and produce such values.
\<close>

datatype jsnumber = NaN | PosInfinity | NegInfinity | Finite int int

text \<open>
  The values \<^verbatim>\<open>JSON.parse\<close> can return, and \<^verbatim>\<open>undefined\<close>, which a property read
  yields for a missing key. An object is the list of its own properties, each key once;
  of a parsed object the program only reads properties by name, so their order does not
  matter.
\<close>

datatype jsval =
    Undefined
  | JNull
  | JBool bool
  | JNum jsnumber
  | JStr string
  | JArr "jsval list"
  | JObj "(string \<times> jsval) list"

text \<open>What a statement of the handler can throw; the \<^verbatim>\<open>catch\<close> clause tells none apart.\<close>

datatype jserror = TypeError | SyntaxError | OtherError

text \<open>
  \<^verbatim>\<open>v.key\<close> for one of the keys the program reads (\<^verbatim>\<open>meals\<close>, \<^verbatim>\<open>mealType\<close>,
  \<^verbatim>\<open>recipeName\<close>, \<^verbatim>\<open>ingredients\<close>, \<^verbatim>\<open>instructions\<close>, \<^verbatim>\<open>shoppingList\<close>): none of them is
  a property of a prototype, so the read finds an own property of an object or nothing.
  Reading a property of \<^verbatim>\<open>null\<close> or \<^verbatim>\<open>undefined\<close> throws a \<^verbatim>\<open>TypeError\<close>.
\<close>

fun getProp :: "jsval \<Rightarrow> string \<Rightarrow> jserror + jsval" where
  "getProp Undefined k = Inl TypeError"
| "getProp JNull k = Inl TypeError"
| "getProp (JObj kvs) k = (case map_of kvs k of None \<Rightarrow> Inr Undefined | Some v \<Rightarrow> Inr v)"
| "getProp v k = Inr Undefined"

section \<open>The component's state\<close>

text \<open>Of a \<^verbatim>\<open>File\<close> the component reads the name; the content comes from the reader.\<close>

record jsfile =
  name :: string

text \<open>
  The nine \<^verbatim>\<open>useState\<close> cells of \<^verbatim>\<open>App\<close>. \<^verbatim>\<open>selectedMeals\<close> is a
  \<^verbatim>\<open>Record<string, boolean>\<close>: an object, kept as the list of its properties in insertion
  order, the order \<^verbatim>\<open>Object.keys\<close> and \<^verbatim>\<open>Object.values\<close> follow for keys that are no
  array indices (the five meal names are none). \<^verbatim>\<open>mealPlan\<close> is typed
  \<^verbatim>\<open>Meal[] | null\<close>, but the handler stores whatever the parsed response holds, so the
  cell is a \<^typ>\<open>jsval\<close>.
\<close>

record state =
  file' :: "jsfile option"
  diet :: string
  userType :: string
  numPeople :: jsnumber
  selectedMeals :: "(string \<times> bool) list"
  pantryOption :: string
  mealPlan :: jsval
  loading :: bool
  error :: "string option"

definition mealTimeOptions :: "string list" where
  "mealTimeOptions = [''breakfast'', ''brunch'', ''lunch'', ''snack'', ''dinner'']"

definition initialState :: state where
  "initialState =
     \<lparr> file' = None, diet = [], userType = [], numPeople = Finite 1 0,
       selectedMeals = [(''breakfast'', False), (''brunch'', False), (''lunch'', False),
                        (''snack'', False), (''dinner'', False)],
       pantryOption = ''pantryOnly'', mealPlan = JNull, loading = False, error = None \<rparr>"

text \<open>\<^verbatim>\<open>Object.values(selectedMeals).some(v => v)\<close>\<close>

definition atLeastOneMealSelected :: "state \<Rightarrow> bool" where
  "atLeastOneMealSelected s = list_ex (\<lambda>v. v) (map snd (selectedMeals s))"

text \<open>
  The guard of the handler and of the button: \<^verbatim>\<open>!file || !diet || !userType ||
  !atLeastOneMealSelected\<close>. A \<^verbatim>\<open>File\<close> is truthy, \<^verbatim>\<open>null\<close> is not; a string is falsy
  exactly when it is empty.
\<close>

definition fieldsMissing :: "state \<Rightarrow> bool" where
  "fieldsMissing s =
     (file' s = None \<or> diet s = [] \<or> userType s = [] \<or> \<not> atLeastOneMealSelected s)"

text \<open>The \<^verbatim>\<open>disabled\<close> attribute of the submit button.\<close>

definition submitDisabled :: "state \<Rightarrow> bool" where
  "submitDisabled s = (fieldsMissing s \<or> loading s)"

section \<open>Numbers and strings in the prompt\<close>

text \<open>The decimal digits of a number that is not negative, most significant first.\<close>

function digits :: "int \<Rightarrow> string" where
  "digits n =
     (if n < 10 then [''0123456789'' ! nat n]
      else digits (n div 10) @ [''0123456789'' ! nat (n mod 10)])"
  by pat_completeness auto
termination
  by (relation "measure nat") auto

declare digits.simps [simp del]

text \<open>
  \<^verbatim>\<open>Number.prototype.toString\<close>, which a template literal applies to \<^verbatim>\<open>${numPeople}\<close>
  (ECMAScript, Number::toString with radix 10). For a finite non-zero value the digits
  \<open>ds\<close> of the significand without its trailing zeros, their number \<open>k\<close> and the decimal
  exponent \<open>n\<close> with value \<open>0.ds * 10 ^ n\<close> select one of the five formats.
\<close>

definition formatDigits :: "string \<Rightarrow> int \<Rightarrow> string" where
  "formatDigits ds n =
     (let k = int (length ds) in
      if k \<le> n \<and> n \<le> 21 then ds @ replicate (nat (n - k)) (CHR ''0'')
      else if 0 < n \<and> n \<le> 21 then take (nat n) ds @ ''.'' @ drop (nat n) ds
      else if - 6 < n \<and> n \<le> 0 then ''0.'' @ replicate (nat (- n)) (CHR ''0'') @ ds
      else (if k = 1 then ds else take 1 ds @ ''.'' @ drop 1 ds) @ ''e'' @
           (if 0 \<le> n - 1 then ''+'' else ''-'') @ digits \<bar>n - 1\<bar>)"

definition Number_toString :: "jsnumber \<Rightarrow> string" where
  "Number_toString x =
     (case x of
        NaN \<Rightarrow> ''NaN''
      | PosInfinity \<Rightarrow> ''Infinity''
      | NegInfinity \<Rightarrow> ''-Infinity''
      | Finite m e \<Rightarrow>
          if m = 0 then ''0''
          else
            let all = digits \<bar>m\<bar>;
                ds = rev (dropWhile (\<lambda>c. c = CHR ''0'') (rev all));
                n = int (length all) + e
            in (if m < 0 then ''-'' else []) @ formatDigits ds n)"

text \<open>\<^verbatim>\<open>Array.prototype.join\<close> on an array of strings.\<close>

fun join :: "string \<Rightarrow> string list \<Rightarrow> string" where
  "join sep [] = []"
| "join sep [x] = x"
| "join sep (x # y # ys) = x @ sep @ join sep (y # ys)"

text \<open>
  \<^verbatim>\<open>Object.keys(selectedMeals).filter(meal => selectedMeals[meal]).join(', ')\<close>: the keys in
  insertion order, those kept whose value is \<^verbatim>\<open>true\<close>.
\<close>

definition selectedMealNames :: "(string \<times> bool) list \<Rightarrow> string" where
  "selectedMealNames sm =
     join '', '' (filter (\<lambda>meal. map_of sm meal = Some True) (map fst sm))"

definition strictClause :: string where
  "strictClause = ''Strictly use only the ingredients from the pantry list provided.''"

definition shoppingClause :: string where
  "shoppingClause = ''You can suggest ingredients that are not in the pantry list. If you do, please provide a separate '' @ [CHR 0x27] @ ''shoppingList'' @ [CHR 0x27] @ '' of items to buy for each recipe that requires them.''"

definition pantryInstruction :: "string \<Rightarrow> string" where
  "pantryInstruction opt = (if opt = ''allowNew'' then shoppingClause else strictClause)"

text \<open>
  The template literal of the handler. Each line of the source starts with eight blanks;
  the two lines around the pantry clause hold only those blanks, and the last line holds
  six before the closing quote.
\<close>

definition nl :: string where
  "nl = [CHR 0x0A]"

definition indent :: string where
  "indent = ''        ''"

definition promptHead :: "string \<Rightarrow> jsnumber \<Rightarrow> string \<Rightarrow> string \<Rightarrow> string \<Rightarrow> string" where
  "promptHead ut np d meals fileContent =
     nl @ indent @ ''I am a '' @ ut @ ''. I am planning meals for '' @ Number_toString np @
       '' person(s).'' @
     nl @ indent @ ''My diet preference is '' @ d @ ''.'' @
     nl @ indent @ ''Please suggest recipes for the following meals: '' @ meals @ ''.'' @
     nl @ indent @ ''The pantry and equipment list is as follows:'' @
     nl @ indent @ fileContent @
     nl @ indent @
     nl @ indent"

definition promptTail :: string where
  "promptTail =
     nl @ indent @
     nl @ indent @ ''Provide the recipe name, a list of ingredients, simple instructions, and the meal type for each recipe.'' @
     nl @ ''      ''"

definition composePrompt :: "state \<Rightarrow> string \<Rightarrow> string" where
  "composePrompt s fileContent =
     promptHead (userType s) (numPeople s) (diet s) (selectedMealNames (selectedMeals s))
       fileContent @
     pantryInstruction (pantryOption s) @ promptTail"

section \<open>Rounding to a double\<close>

text \<open>
  The number a numeric literal denotes is the double nearest to its mathematical value,
  ties going to the even significand, an infinity when the value is too large. A positive
  rational is a pair of numerator and denominator, a double a pair \<open>(M, E)\<close> for
  \<open>M * 2 ^ E\<close> with \<open>M\<close> below \<open>2 ^ 53\<close> (or equal to it after rounding up) and \<open>E\<close>
  not below \<open>- 1074\<close>.
\<close>

text \<open>The number of binary digits of a positive number.\<close>

function bitLength :: "int \<Rightarrow> int" where
  "bitLength n = (if n \<le> 0 then 0 else 1 + bitLength (n div 2))"
  by pat_completeness auto
termination
  by (relation "measure nat") auto

declare bitLength.simps [simp del]

text \<open>The quotient \<open>a / b\<close> rounded to the nearest integer, a tie to the even one.\<close>

definition roundHalfEven :: "int \<Rightarrow> int \<Rightarrow> int" where
  "roundHalfEven a b =
     (let q = a div b; r = a mod b
      in if 2 * r < b then q
         else if b < 2 * r then q + 1
         else if even q then q else q + 1)"

text \<open>The rational \<open>num / den\<close> times \<open>b ^ e\<close>.\<close>

definition scaleBy :: "int \<Rightarrow> int \<Rightarrow> int \<Rightarrow> int \<Rightarrow> int \<times> int" where
  "scaleBy b num den e =
     (if 0 \<le> e then (num * b ^ nat e, den) else (num, den * b ^ nat (- e)))"

text \<open>
  The double nearest to \<open>num / den\<close>, or nothing when it is beyond the largest double.
  \<open>p\<close> is the binary exponent of the value, so the significand has 53 bits at exponent
  \<open>p - 52\<close>, or fewer at the least exponent \<open>- 1074\<close>.
\<close>

definition nearestDouble :: "int \<Rightarrow> int \<Rightarrow> (int \<times> int) option" where
  "nearestDouble num den =
     (let e0 = bitLength num - bitLength den;
          (a0, b0) = scaleBy 2 num den (- e0);
          p = (if b0 \<le> a0 then e0 else e0 - 1);
          E = max (p - 52) (- 1074);
          (a, b) = scaleBy 2 num den (- E);
          M = roundHalfEven a b
      in if 1024 < bitLength M + E then None else Some (M, E))"

definition sameDouble :: "int \<times> int \<Rightarrow> int \<times> int \<Rightarrow> bool" where
  "sameDouble x y =
     (case (x, y) of
        ((M, E), (M', E')) \<Rightarrow>
          (let l = min E E' in M * 2 ^ nat (E - l) = M' * 2 ^ nat (E' - l)))"

text \<open>The decimal \<open>s * 10 ^ p\<close> denotes the double \<open>x\<close>.\<close>

definition roundsTo :: "int \<times> int \<Rightarrow> int \<Rightarrow> int \<Rightarrow> bool" where
  "roundsTo x s p =
     (case scaleBy 10 s 1 p of
        (num, den) \<Rightarrow>
          (case nearestDouble num den of
             None \<Rightarrow> False
           | Some y \<Rightarrow> sameDouble x y))"

text \<open>The decimal exponent \<open>n\<close> of a positive rational: it lies from \<open>10 ^ (n - 1)\<close> up to \<open>10 ^ n\<close>.\<close>

definition magnitude :: "int \<Rightarrow> int \<Rightarrow> int" where
  "magnitude xn xd =
     (if xd \<le> xn then int (length (digits (xn div xd)))
      else 1 - int (length (digits (xd div xn))))"

text \<open>
  Of the two multiples of \<open>10 ^ p\<close> around the double \<open>x\<close>, the one that denotes \<open>x\<close>; when
  both do, the closer one, and the even one when they are equally close.
\<close>

definition candidate :: "int \<times> int \<Rightarrow> int \<Rightarrow> (int \<times> int) option" where
  "candidate x p =
     (case x of
        (M, E) \<Rightarrow>
          (let (xn, xd) = scaleBy 2 M 1 E;
               (a, b) = scaleBy 10 xn xd (- p);
               lo = a div b;
               r = a mod b;
               okLo = roundsTo x lo p;
               okHi = roundsTo x (lo + 1) p
           in if okLo \<and> okHi then
                (if 2 * r < b then Some (lo, p)
                 else if b < 2 * r then Some (lo + 1, p)
                 else if even lo then Some (lo, p) else Some (lo + 1, p))
              else if okLo then Some (lo, p)
              else if okHi then Some (lo + 1, p)
              else None))"

text \<open>
  The decimal with the fewest digits that denotes \<open>x\<close>, tried with \<open>k\<close> digits and more;
  seventeen digits always do.
\<close>

function shortestFrom :: "int \<times> int \<Rightarrow> int \<Rightarrow> nat \<Rightarrow> int \<times> int" where
  "shortestFrom x n k =
     (case candidate x (n - int k) of
        Some r \<Rightarrow> r
      | None \<Rightarrow>
          if 17 \<le> k then
            (case x of
               (M, E) \<Rightarrow>
                 (case scaleBy 2 M 1 E of
                    (xn, xd) \<Rightarrow>
                      (case scaleBy 10 xn xd (int k - n) of
                         (a, b) \<Rightarrow> (a div b, n - int k))))
          else shortestFrom x n (Suc k))"
  by pat_completeness auto
termination
  by (relation "measure (\<lambda>(x, n, k). 17 - k)") auto

declare shortestFrom.simps [simp del]

function stripZeros :: "int \<Rightarrow> int \<Rightarrow> int \<times> int" where
  "stripZeros s p =
     (if 0 < s \<and> s mod 10 = 0 then stripZeros (s div 10) (p + 1) else (s, p))"
  by pat_completeness auto
termination
  by (relation "measure (\<lambda>(s, p). nat s)") auto

declare stripZeros.simps [simp del]

definition shortestDecimal :: "int \<times> int \<Rightarrow> int \<times> int" where
  "shortestDecimal x =
     (case x of
        (M, E) \<Rightarrow>
          (case scaleBy 2 M 1 E of
             (xn, xd) \<Rightarrow>
               (case shortestFrom x (magnitude xn xd) 1 of
                  (s, p) \<Rightarrow> stripZeros s p)))"

text \<open>
  The number that the decimal \<open>m * 10 ^ e\<close>, negated when \<open>neg\<close>, denotes: the nearest
  double in its shortest decimal form, or an infinity.
\<close>

definition fromDecimal :: "bool \<Rightarrow> int \<Rightarrow> int \<Rightarrow> jsnumber" where
  "fromDecimal neg m e =
     (if m \<le> 0 then Finite 0 0
      else
        (case scaleBy 10 m 1 e of
           (num, den) \<Rightarrow>
             (case nearestDouble num den of
                None \<Rightarrow> if neg then NegInfinity else PosInfinity
              | Some (M, E) \<Rightarrow>
                  if M = 0 then Finite 0 0
                  else
                    (case shortestDecimal (M, E) of
                       (s, p) \<Rightarrow> Finite (if neg then - s else s) p))))"

section \<open>A model of JSON.parse\<close>

text \<open>
  \<^verbatim>\<open>JSON.parse\<close> belongs to the platform; the theorems about the handler hold for every
  function in its place. The parser below follows the JSON grammar of ECMA-404 and is what
  the statements about concrete response texts are evaluated with. A string is kept as a
  list of bytes: an escape \<^verbatim>\<open>\uXXXX\<close> is stored as the UTF-8 bytes of its code unit. A later
  duplicate of a key overwrites the value and keeps the place of the first, as it does for
  an object of the platform.
\<close>

fun setProp :: "(string \<times> 'v) list \<Rightarrow> string \<Rightarrow> 'v \<Rightarrow> (string \<times> 'v) list" where
  "setProp [] k v = [(k, v)]"
| "setProp ((k', v') # kvs) k v =
     (if k' = k then (k, v) # kvs else (k', v') # setProp kvs k v)"

fun indexOf :: "char \<Rightarrow> string \<Rightarrow> nat option" where
  "indexOf c [] = None"
| "indexOf c (d # ds) =
     (if c = d then Some 0 else map_option Suc (indexOf c ds))"

definition isDigit :: "char \<Rightarrow> bool" where
  "isDigit c = (indexOf c ''0123456789'' \<noteq> None)"

definition digitVal :: "char \<Rightarrow> nat" where
  "digitVal c = (case indexOf c ''0123456789'' of None \<Rightarrow> 0 | Some d \<Rightarrow> d)"

text \<open>The value of a hexadecimal digit, in either case.\<close>

definition hexVal :: "char \<Rightarrow> nat option" where
  "hexVal c =
     (case indexOf c ''0123456789abcdef'' of
        Some d \<Rightarrow> Some d
      | None \<Rightarrow> map_option (\<lambda>d. d + 10) (indexOf c ''ABCDEF''))"

definition digitsValue :: "string \<Rightarrow> int" where
  "digitsValue ds = foldl (\<lambda>a c. 10 * a + int (digitVal c)) 0 ds"

definition isJsonWs :: "char \<Rightarrow> bool" where
  "isJsonWs c = (c = CHR '' '' \<or> c = CHR 0x09 \<or> c = CHR 0x0A \<or> c = CHR 0x0D)"

definition skipWs :: "string \<Rightarrow> string" where
  "skipWs cs = dropWhile isJsonWs cs"

text \<open>The UTF-8 bytes of a code unit below \<open>0x10000\<close>.\<close>

definition utf8 :: "nat \<Rightarrow> string" where
  "utf8 u =
     (if u < 0x80 then [char_of u]
      else if u < 0x800 then [char_of (0xC0 + u div 64), char_of (0x80 + u mod 64)]
      else [char_of (0xE0 + u div 4096), char_of (0x80 + (u div 64) mod 64),
            char_of (0x80 + u mod 64)])"

text \<open>The character a one-letter escape stands for.\<close>

definition unescape :: "char \<Rightarrow> char option" where
  "unescape e =
     (if e = CHR 0x22 \<or> e = CHR 0x5C \<or> e = CHR ''/'' then Some e
      else if e = CHR ''b'' then Some (CHR 0x08)
      else if e = CHR ''f'' then Some (CHR 0x0C)
      else if e = CHR ''n'' then Some (CHR 0x0A)
      else if e = CHR ''r'' then Some (CHR 0x0D)
      else if e = CHR ''t'' then Some (CHR 0x09)
      else None)"

definition hex4 :: "char \<Rightarrow> char \<Rightarrow> char \<Rightarrow> char \<Rightarrow> nat option" where
  "hex4 a b c d =
     (case (hexVal a, hexVal b, hexVal c, hexVal d) of
        (Some w, Some x, Some y, Some z) \<Rightarrow> Some (((w * 16 + x) * 16 + y) * 16 + z)
      | _ \<Rightarrow> None)"

text \<open>
  The characters of a string after its opening quote, up to the closing one, and the rest
  of the input. A control character below \<open>0x20\<close> must be escaped.
\<close>

fun parseChars :: "string \<Rightarrow> (string \<times> string) option" where
  "parseChars [] = None"
| "parseChars (c # cs) =
     (if c = CHR 0x22 then Some ([], cs)
      else if c = CHR 0x5C then
        (case cs of
           [] \<Rightarrow> None
         | e # cs' \<Rightarrow>
             if e = CHR ''u'' then
               (case cs' of
                  a # b # c' # d # cs'' \<Rightarrow>
                    (case hex4 a b c' d of
                       None \<Rightarrow> None
                     | Some u \<Rightarrow>
                         (case parseChars cs'' of
                            None \<Rightarrow> None
                          | Some (s, r) \<Rightarrow> Some (utf8 u @ s, r)))
                | _ \<Rightarrow> None)
             else
               (case unescape e of
                  None \<Rightarrow> None
                | Some ch \<Rightarrow>
                    (case parseChars cs' of
                       None \<Rightarrow> None
                     | Some (s, r) \<Rightarrow> Some (ch # s, r))))
      else if of_char c < (0x20 :: nat) then None
      else
        (case parseChars cs of
           None \<Rightarrow> None
         | Some (s, r) \<Rightarrow> Some (c # s, r)))"

text \<open>
  A number: an optional minus, an integer part without a leading zero (unless it is the
  single digit 0), an optional fraction and an optional exponent; its value is rounded to
  the nearest double.
\<close>

definition parseExponent :: "string \<Rightarrow> (int \<times> string) option" where
  "parseExponent cs =
     (case cs of
        [] \<Rightarrow> Some (0, cs)
      | c # r \<Rightarrow>
          if c = CHR ''e'' \<or> c = CHR ''E'' then
            (let neg = (case r of [] \<Rightarrow> False | g # _ \<Rightarrow> g = CHR ''-'');
                 r' = (case r of [] \<Rightarrow> r
                       | g # t \<Rightarrow> if g = CHR ''-'' \<or> g = CHR ''+'' then t else r);
                 ds = takeWhile isDigit r'
             in if ds = [] then None
                else Some ((if neg then - digitsValue ds else digitsValue ds),
                           dropWhile isDigit r'))
          else Some (0, cs))"

definition parseFraction :: "string \<Rightarrow> (string \<times> string) option" where
  "parseFraction cs =
     (case cs of
        [] \<Rightarrow> Some ([], cs)
      | c # r \<Rightarrow>
          if c = CHR ''.'' then
            (let ds = takeWhile isDigit r
             in if ds = [] then None else Some (ds, dropWhile isDigit r))
          else Some ([], cs))"

definition parseNumber :: "string \<Rightarrow> (jsnumber \<times> string) option" where
  "parseNumber cs =
     (let neg = (case cs of [] \<Rightarrow> False | c # _ \<Rightarrow> c = CHR ''-'');
          cs1 = (if neg then tl cs else cs);
          ip = takeWhile isDigit cs1
      in if ip = [] \<or> (1 < length ip \<and> hd ip = CHR ''0'') then None
         else
           (case parseFraction (dropWhile isDigit cs1) of
              None \<Rightarrow> None
            | Some (fp, cs2) \<Rightarrow>
                (case parseExponent cs2 of
                   None \<Rightarrow> None
                 | Some (ex, cs3) \<Rightarrow>
                     Some (fromDecimal neg (digitsValue (ip @ fp)) (ex - int (length fp)),
                           cs3))))"

definition parseLiteral :: "string \<Rightarrow> (jsval \<times> string) option" where
  "parseLiteral cs =
     (if take 4 cs = ''true'' then Some (JBool True, drop 4 cs)
      else if take 5 cs = ''false'' then Some (JBool False, drop 5 cs)
      else if take 4 cs = ''null'' then Some (JNull, drop 4 cs)
      else map_option (\<lambda>(x, r). (JNum x, r)) (parseNumber cs))"

text \<open>
  Values, the elements of an array after its opening bracket, and the members of an object
  after its opening brace. The first argument bounds the number of nested calls; each call
  but the first of \<open>parseElements\<close> consumes a character, so twice the length of the input
  is enough.
\<close>

fun parseValue :: "nat \<Rightarrow> string \<Rightarrow> (jsval \<times> string) option"
  and parseElements :: "nat \<Rightarrow> jsval list \<Rightarrow> string \<Rightarrow> (jsval \<times> string) option"
  and parseMembers :: "nat \<Rightarrow> (string \<times> jsval) list \<Rightarrow> string \<Rightarrow> (jsval \<times> string) option"
where
  "parseValue 0 cs = None"
| "parseValue (Suc n) cs =
     (case skipWs cs of
        [] \<Rightarrow> None
      | c # r \<Rightarrow>
          if c = CHR ''{'' then
            (case skipWs r of
               [] \<Rightarrow> None
             | c' # r' \<Rightarrow> if c' = CHR ''}'' then Some (JObj [], r') else parseMembers n [] r)
          else if c = CHR ''['' then
            (case skipWs r of
               [] \<Rightarrow> None
             | c' # r' \<Rightarrow> if c' = CHR '']'' then Some (JArr [], r') else parseElements n [] r)
          else if c = CHR 0x22 then
            (case parseChars r of
               None \<Rightarrow> None
             | Some (s, r') \<Rightarrow> Some (JStr s, r'))
          else parseLiteral (c # r))"
| "parseElements 0 acc cs = None"
| "parseElements (Suc n) acc cs =
     (case parseValue n cs of
        None \<Rightarrow> None
      | Some (v, r) \<Rightarrow>
          (case skipWs r of
             [] \<Rightarrow> None
           | c # r' \<Rightarrow>
               if c = CHR '','' then parseElements n (acc @ [v]) r'
               else if c = CHR '']'' then Some (JArr (acc @ [v]), r')
               else None))"
| "parseMembers 0 acc cs = None"
| "parseMembers (Suc n) acc cs =
     (case skipWs cs of
        [] \<Rightarrow> None
      | q # r \<Rightarrow>
          if q = CHR 0x22 then
            (case parseChars r of
               None \<Rightarrow> None
             | Some (k, r1) \<Rightarrow>
                 (case skipWs r1 of
                    [] \<Rightarrow> None
                  | c1 # r2 \<Rightarrow>
                      if c1 = CHR '':'' then
                        (case parseValue n r2 of
                           None \<Rightarrow> None
                         | Some (v, r3) \<Rightarrow>
                             (case skipWs r3 of
                                [] \<Rightarrow> None
                              | c3 # r4 \<Rightarrow>
                                  if c3 = CHR '','' then parseMembers n (setProp acc k v) r4
                                  else if c3 = CHR ''}'' then Some (JObj (setProp acc k v), r4)
                                  else None))
                      else None))
          else None)"

text \<open>The whole text must be one value, with white space around it at most.\<close>

definition parseJSON :: "string \<Rightarrow> jserror + jsval" where
  "parseJSON t =
     (case parseValue (2 * length t + 2) t of
        None \<Rightarrow> Inl SyntaxError
      | Some (v, r) \<Rightarrow> if skipWs r = [] then Inr v else Inl SyntaxError)"

section \<open>Strings to numbers\<close>

text \<open>
  \<^verbatim>\<open>Number(str)\<close> (ECMAScript, StringToNumber): white space is trimmed; the empty string is
  0; a binary, octal or hexadecimal integer, a signed decimal literal or a signed
  \<^verbatim>\<open>Infinity\<close> is its value, rounded to the nearest double; anything else is \<^verbatim>\<open>NaN\<close>.
  Of the white space only the one-byte characters are modelled.
\<close>

definition isStrWs :: "char \<Rightarrow> bool" where
  "isStrWs c =
     (c = CHR '' '' \<or> c = CHR 0x09 \<or> c = CHR 0x0A \<or> c = CHR 0x0B \<or> c = CHR 0x0C \<or>
      c = CHR 0x0D)"

definition trim :: "string \<Rightarrow> string" where
  "trim cs = rev (dropWhile isStrWs (rev (dropWhile isStrWs cs)))"

text \<open>The value of a non-empty run of digits to a base, when every digit is below it.\<close>

definition valueInBase :: "nat \<Rightarrow> string \<Rightarrow> int option" where
  "valueInBase b ds =
     (if ds \<noteq> [] \<and> list_all (\<lambda>c. case hexVal c of None \<Rightarrow> False | Some d \<Rightarrow> d < b) ds
      then Some (foldl (\<lambda>a c. int b * a + (case hexVal c of None \<Rightarrow> 0 | Some d \<Rightarrow> int d)) 0 ds)
      else None)"

text \<open>
  An unsigned decimal literal: digits, a point and a fraction, of which the digits or the
  fraction may be missing but not both, and an optional exponent; nothing may follow.
\<close>

definition unsignedDecimal :: "string \<Rightarrow> (int \<times> int) option" where
  "unsignedDecimal cs =
     (let ip = takeWhile isDigit cs;
          r1 = dropWhile isDigit cs;
          pt = (case r1 of [] \<Rightarrow> False | c # _ \<Rightarrow> c = CHR ''.'');
          fp = (if pt then takeWhile isDigit (tl r1) else []);
          r2 = (if pt then dropWhile isDigit (tl r1) else r1)
      in if ip = [] \<and> fp = [] then None
         else
           (case parseExponent r2 of
              None \<Rightarrow> None
            | Some (ex, r3) \<Rightarrow>
                if r3 = [] then Some (digitsValue (ip @ fp), ex - int (length fp))
                else None))"

definition signedDecimal :: "string \<Rightarrow> jsnumber" where
  "signedDecimal cs =
     (let neg = (case cs of [] \<Rightarrow> False | c # _ \<Rightarrow> c = CHR ''-'');
          signed = (case cs of [] \<Rightarrow> False | c # _ \<Rightarrow> c = CHR ''-'' \<or> c = CHR ''+'');
          body = (if signed then tl cs else cs)
      in if body = ''Infinity'' then (if neg then NegInfinity else PosInfinity)
         else
           (case unsignedDecimal body of
              None \<Rightarrow> NaN
            | Some (m, e) \<Rightarrow> fromDecimal neg m e))"

definition Number :: "string \<Rightarrow> jsnumber" where
  "Number str =
     (let cs = trim str;
          pre = take 2 cs
      in if cs = [] then Finite 0 0
         else if pre = ''0x'' \<or> pre = ''0X'' then
           (case valueInBase 16 (drop 2 cs) of None \<Rightarrow> NaN | Some n \<Rightarrow> fromDecimal False n 0)
         else if pre = ''0o'' \<or> pre = ''0O'' then
           (case valueInBase 8 (drop 2 cs) of None \<Rightarrow> NaN | Some n \<Rightarrow> fromDecimal False n 0)
         else if pre = ''0b'' \<or> pre = ''0B'' then
           (case valueInBase 2 (drop 2 cs) of None \<Rightarrow> NaN | Some n \<Rightarrow> fromDecimal False n 0)
         else signedDecimal cs)"

section \<open>The input controls\<close>

text \<open>
  What the user can do to the form, one event per \<^verbatim>\<open>onChange\<close> handler: the file input
  (with \<^verbatim>\<open>event.target.files\<close>, which may be \<^verbatim>\<open>null\<close>), a meal-time checkbox (with its
  \<^verbatim>\<open>name\<close> and \<^verbatim>\<open>checked\<close>), and the four controls that pass \<^verbatim>\<open>e.target.value\<close> on.
\<close>

datatype event =
    FileChange "jsfile list option"
  | MealTimeChange string bool
  | UserTypeChange string
  | NumPeopleChange string
  | DietChange string
  | PantryOptionChange string

definition handleFileChange :: "jsfile list option \<Rightarrow> state \<Rightarrow> state" where
  "handleFileChange files s =
     (case files of
        Some (f # _) \<Rightarrow> s\<lparr>file' := Some f\<rparr>
      | _ \<Rightarrow> s)"

text \<open>\<^verbatim>\<open>setSelectedMeals(prev => ({ ...prev, [name]: checked }))\<close>\<close>

definition handleMealTimeChange :: "string \<Rightarrow> bool \<Rightarrow> state \<Rightarrow> state" where
  "handleMealTimeChange nm checked s =
     s\<lparr>selectedMeals := setProp (selectedMeals s) nm checked\<rparr>"

fun handleEvent :: "state \<Rightarrow> event \<Rightarrow> state" where
  "handleEvent s (FileChange files) = handleFileChange files s"
| "handleEvent s (MealTimeChange nm checked) = handleMealTimeChange nm checked s"
| "handleEvent s (UserTypeChange v) = s\<lparr>userType := v\<rparr>"
| "handleEvent s (NumPeopleChange v) = s\<lparr>numPeople := Number v\<rparr>"
| "handleEvent s (DietChange v) = s\<lparr>diet := v\<rparr>"
| "handleEvent s (PantryOptionChange v) = s\<lparr>pantryOption := v\<rparr>"

text \<open>
  The checkboxes are rendered from \<^verbatim>\<open>mealTimeOptions\<close>, so the name of a meal-time event is
  one of the five.
\<close>

fun fromForm :: "event \<Rightarrow> bool" where
  "fromForm (MealTimeChange nm checked) = (nm \<in> set mealTimeOptions)"
| "fromForm _ = True"

section \<open>The request\<close>

text \<open>
  The \<^verbatim>\<open>responseSchema\<close> object: a string, an array (with the optional
  \<^verbatim>\<open>description\<close>), or an object with its properties and its \<^verbatim>\<open>required\<close> list (empty
  where the source gives none). The schema of the source is one literal; the schema of a
  meal, the \<^verbatim>\<open>items\<close> of \<^verbatim>\<open>meals\<close>, has a name of its own here.
\<close>

datatype schema =
    STRING
  | ARRAY schema "string option"
  | OBJECT "(string \<times> schema) list" "string list"

definition mealSchema :: schema where
  "mealSchema =
     OBJECT
       [(''mealType'', STRING),
        (''recipeName'', STRING),
        (''ingredients'', ARRAY STRING None),
        (''instructions'', STRING),
        (''shoppingList'',
         ARRAY STRING
           (Some ''List of ingredients to buy. Only include if new ingredients are needed.''))]
       [''mealType'', ''recipeName'', ''ingredients'', ''instructions'']"

definition responseSchema :: schema where
  "responseSchema = OBJECT [(''meals'', ARRAY mealSchema None)] []"

text \<open>The argument of \<^verbatim>\<open>ai.models.generateContent\<close>.\<close>

record request =
  model :: string
  contents :: string
  responseMimeType :: string
  schemaOf :: schema

definition mkRequest :: "string \<Rightarrow> request" where
  "mkRequest prompt =
     \<lparr> model = ''gemini-2.5-flash'', contents = prompt,
       responseMimeType = ''application/json'', schemaOf = responseSchema \<rparr>"

text \<open>
  Of the response the handler reads \<^verbatim>\<open>response.text\<close>, a string or \<^verbatim>\<open>undefined\<close>.
  \<^verbatim>\<open>JSON.parse\<close> converts its argument to a string first, so \<^verbatim>\<open>undefined\<close> is parsed as
  the text \<^verbatim>\<open>undefined\<close>.
\<close>

record response =
  text' :: "string option"

definition parseArgument :: "response \<Rightarrow> string" where
  "parseArgument r = (case text' r of None \<Rightarrow> ''undefined'' | Some t \<Rightarrow> t)"

section \<open>The platform\<close>

text \<open>
  An awaited promise resolves with a value, rejects, or never settles. The promise of
  \<^verbatim>\<open>fileToText\<close> settles from the reader's \<^verbatim>\<open>onload\<close> and \<^verbatim>\<open>onerror\<close> only, and the
  request has no timeout, so neither is known to settle.
\<close>

datatype 'a settled = Resolved 'a | Rejected | Pending

text \<open>
  What the handler calls and does not define: the client's constructor (which may throw),
  the file reader behind \<^verbatim>\<open>fileToText\<close>, the service behind \<^verbatim>\<open>generateContent\<close>, and
  \<^verbatim>\<open>JSON.parse\<close>.
\<close>

record platform =
  clientThrows :: bool
  fileToText :: "jsfile \<Rightarrow> string settled"
  generateContent :: "request \<Rightarrow> response settled"
  JSON_parse :: "string \<Rightarrow> jserror + jsval"

section \<open>The submit handler\<close>

text \<open>What the handler does to the world, in program order.\<close>

datatype effect =
    PreventDefault
  | SetError "string option"
  | SetLoading bool
  | SetMealPlan jsval
  | NewGoogleGenAI
  | ReadAsText jsfile
  | GenerateContent request
  | ConsoleError

definition validationMessage :: string where
  "validationMessage = ''Please fill in all the required fields.''"

definition genericMessage :: string where
  "genericMessage = ''Sorry, we couldn'' @ [CHR 0x27] @ ''t generate a meal plan. Please check the file format or try again later.''"

text \<open>The \<^verbatim>\<open>finally\<close> clause, and the \<^verbatim>\<open>catch\<close> clause followed by it.\<close>

definition finallyBlock :: "effect list" where
  "finallyBlock = [SetLoading False]"

definition catchBlock :: "effect list" where
  "catchBlock = [ConsoleError, SetError (Some genericMessage)] @ finallyBlock"

text \<open>
  The last two statements of the \<^verbatim>\<open>try\<close> block, run once the response is there:
  \<^verbatim>\<open>JSON.parse(response.text)\<close>, then \<^verbatim>\<open>setMealPlan(parsedPlan.meals)\<close>.
\<close>

definition onResponse :: "platform \<Rightarrow> response \<Rightarrow> effect list" where
  "onResponse p r =
     (case JSON_parse p (parseArgument r) of
        Inl e \<Rightarrow> catchBlock
      | Inr parsedPlan \<Rightarrow>
          (case getProp parsedPlan ''meals'' of
             Inl e \<Rightarrow> catchBlock
           | Inr meals \<Rightarrow> SetMealPlan meals # finallyBlock))"

text \<open>The \<^verbatim>\<open>try\<close> statement; \<open>f\<close> is the file the guard found.\<close>

definition tryBlock :: "platform \<Rightarrow> state \<Rightarrow> jsfile \<Rightarrow> effect list" where
  "tryBlock p s f =
     NewGoogleGenAI #
     (if clientThrows p then catchBlock
      else
        ReadAsText f #
        (case fileToText p f of
           Pending \<Rightarrow> []
         | Rejected \<Rightarrow> catchBlock
         | Resolved fileContent \<Rightarrow>
             let req = mkRequest (composePrompt s fileContent) in
             GenerateContent req #
             (case generateContent p req of
                Pending \<Rightarrow> []
              | Rejected \<Rightarrow> catchBlock
              | Resolved r \<Rightarrow> onResponse p r)))"

text \<open>
  \<^verbatim>\<open>handleSubmit\<close>, run in state \<open>s\<close> (the values its closure captured). The guard
  \<^verbatim>\<open>!file || !diet || !userType || !atLeastOneMealSelected\<close> returns early; past it the
  file is not \<^verbatim>\<open>null\<close>.
\<close>

definition handleSubmit :: "platform \<Rightarrow> state \<Rightarrow> effect list" where
  "handleSubmit p s =
     PreventDefault #
     (case (file' s, fieldsMissing s) of
        (Some f, False) \<Rightarrow>
          [SetLoading True, SetError None, SetMealPlan JNull] @ tryBlock p s f
      | _ \<Rightarrow> [SetError (Some validationMessage)])"

text \<open>The state after an effect: a setter replaces its cell, nothing else writes the state.\<close>

fun applyEffect :: "state \<Rightarrow> effect \<Rightarrow> state" where
  "applyEffect s (SetError e) = s\<lparr>error := e\<rparr>"
| "applyEffect s (SetLoading b) = s\<lparr>loading := b\<rparr>"
| "applyEffect s (SetMealPlan v) = s\<lparr>mealPlan := v\<rparr>"
| "applyEffect s _ = s"

definition run :: "state \<Rightarrow> effect list \<Rightarrow> state" where
  "run s es = foldl applyEffect s es"

text \<open>The states the handler goes through: the one after each effect, in order.\<close>

fun trace :: "state \<Rightarrow> effect list \<Rightarrow> state list" where
  "trace s [] = []"
| "trace s (e # es) = applyEffect s e # trace (applyEffect s e) es"

definition submit :: "platform \<Rightarrow> state \<Rightarrow> state" where
  "submit p s = run s (handleSubmit p s)"

text \<open>The handler ran to its end: no awaited promise stayed pending.\<close>

definition settles :: "platform \<Rightarrow> state \<Rightarrow> bool" where
  "settles p s =
     (case (file' s, fieldsMissing s) of
        (Some f, False) \<Rightarrow>
          clientThrows p \<or>
          (case fileToText p f of
             Pending \<Rightarrow> False
           | Rejected \<Rightarrow> True
           | Resolved fileContent \<Rightarrow>
               generateContent p (mkRequest (composePrompt s fileContent)) \<noteq> Pending)
      | _ \<Rightarrow> True)"

section \<open>Submitting the form\<close>

text \<open>
  The handler is the \<^verbatim>\<open>onSubmit\<close> of a form that does not set \<^verbatim>\<open>noValidate\<close>, so the
  browser fires the submit event only when every control satisfies its constraints. The
  two selects are \<^verbatim>\<open>required\<close>: their value, the state's, must not be empty. The number
  input is \<^verbatim>\<open>required\<close> with \<^verbatim>\<open>min="1"\<close> and the default step 1, and React sets its
  value to the string of \<^verbatim>\<open>numPeople\<close>: the strings \<^verbatim>\<open>NaN\<close> and \<^verbatim>\<open>Infinity\<close> are no
  valid numbers of an input, which leaves it empty; a number below 1 underflows; and a
  number that is no integer misses the step from 1. So the field is valid exactly for a
  positive integer.
\<close>

fun numberFieldValid :: "jsnumber \<Rightarrow> bool" where
  "numberFieldValid (Finite m e) = (0 < m \<and> (0 \<le> e \<or> 10 ^ nat (- e) dvd m))"
| "numberFieldValid x = False"

definition constraintsSatisfied :: "state \<Rightarrow> bool" where
  "constraintsSatisfied s =
     (userType s \<noteq> [] \<and> numberFieldValid (numPeople s) \<and> diet s \<noteq> [])"

text \<open>
  A click on the submit button: nothing when the button is disabled or a constraint
  fails, else the submit event and with it the handler.
\<close>

definition submitForm :: "platform \<Rightarrow> state \<Rightarrow> effect list" where
  "submitForm p s =
     (if submitDisabled s then []
      else if constraintsSatisfied s then handleSubmit p s
      else [])"

section \<open>Rendering\<close>

text \<open>
  Evaluating the JSX of \<^verbatim>\<open>App\<close> builds a tree of elements whose leaves are the values put
  in braces; React then turns the tree into document nodes. The first step is the
  repository's code and can throw a \<^verbatim>\<open>TypeError\<close> (a property read of \<^verbatim>\<open>undefined\<close>, a
  call of something that is no function); the second is the platform's and rejects an
  object as a child. Attributes, and with them the \<^verbatim>\<open>key\<close> of a card, are left out.
\<close>

datatype vnode = VElem string "vnode list" | VVal jsval

datatype node = Elem string "node list" | Text string

text \<open>The text node of a string; the empty string gets none.\<close>

definition textNodes :: "string \<Rightarrow> node list" where
  "textNodes s = (if s = [] then [] else [Text s])"

text \<open>
  A value as a child: \<^verbatim>\<open>null\<close>, \<^verbatim>\<open>undefined\<close> and the booleans render nothing, a string
  and a number render as text, an array renders its elements, an object is an error.
\<close>

fun renderChild :: "jsval \<Rightarrow> jserror + node list"
  and renderChildren :: "jsval list \<Rightarrow> jserror + node list"
where
  "renderChild Undefined = Inr []"
| "renderChild JNull = Inr []"
| "renderChild (JBool b) = Inr []"
| "renderChild (JNum x) = Inr [Text (Number_toString x)]"
| "renderChild (JStr s) = Inr (textNodes s)"
| "renderChild (JArr vs) = renderChildren vs"
| "renderChild (JObj kvs) = Inl OtherError"
| "renderChildren [] = Inr []"
| "renderChildren (v # vs) =
     (case renderChild v of
        Inl e \<Rightarrow> Inl e
      | Inr ns \<Rightarrow>
          (case renderChildren vs of
             Inl e \<Rightarrow> Inl e
           | Inr ms \<Rightarrow> Inr (ns @ ms)))"

fun reconcile :: "vnode \<Rightarrow> jserror + node list"
  and reconcileAll :: "vnode list \<Rightarrow> jserror + node list"
where
  "reconcile (VVal v) = renderChild v"
| "reconcile (VElem t cs) =
     (case reconcileAll cs of
        Inl e \<Rightarrow> Inl e
      | Inr ns \<Rightarrow> Inr [Elem t ns])"
| "reconcileAll [] = Inr []"
| "reconcileAll (c # cs) =
     (case reconcile c of
        Inl e \<Rightarrow> Inl e
      | Inr ns \<Rightarrow>
          (case reconcileAll cs of
             Inl e \<Rightarrow> Inl e
           | Inr ms \<Rightarrow> Inr (ns @ ms)))"

text \<open>The truth value of a value in a condition.\<close>

fun truthy :: "jsval \<Rightarrow> bool" where
  "truthy Undefined = False"
| "truthy JNull = False"
| "truthy (JBool b) = b"
| "truthy (JNum NaN) = False"
| "truthy (JNum (Finite m e)) = (m \<noteq> 0)"
| "truthy (JNum x) = True"
| "truthy (JStr s) = (s \<noteq> [])"
| "truthy (JArr vs) = True"
| "truthy (JObj kvs) = True"

text \<open>
  The string of a parsed value, as \<^verbatim>\<open>Array.prototype.join\<close> computes it for an element. A
  parsed object has no callable property of its own, so one with an own \<^verbatim>\<open>toString\<close>
  cannot be converted.
\<close>

fun jsToString :: "jsval \<Rightarrow> jserror + string"
  and joinElements :: "jsval list \<Rightarrow> jserror + string"
where
  "jsToString Undefined = Inr ''undefined''"
| "jsToString JNull = Inr ''null''"
| "jsToString (JBool b) = Inr (if b then ''true'' else ''false'')"
| "jsToString (JNum x) = Inr (Number_toString x)"
| "jsToString (JStr s) = Inr s"
| "jsToString (JArr vs) = joinElements vs"
| "jsToString (JObj kvs) =
     (if map_of kvs ''toString'' = None then Inr ''[object Object]'' else Inl TypeError)"
| "joinElements [] = Inr []"
| "joinElements (v # vs) =
     (case (if v = JNull \<or> v = Undefined then Inr [] else jsToString v) of
        Inl e \<Rightarrow> Inl e
      | Inr s \<Rightarrow>
          if vs = [] then Inr s
          else
            (case joinElements vs of
               Inl e \<Rightarrow> Inl e
             | Inr r \<Rightarrow> Inr (s @ '','' @ r)))"

fun positive :: "jsnumber \<Rightarrow> bool" where
  "positive NaN = False"
| "positive PosInfinity = True"
| "positive NegInfinity = False"
| "positive (Finite m e) = (0 < m)"

text \<open>\<^verbatim>\<open>v > 0\<close>: the value is made a primitive, then a number.\<close>

fun gt0 :: "jsval \<Rightarrow> jserror + bool" where
  "gt0 Undefined = Inr False"
| "gt0 JNull = Inr False"
| "gt0 (JBool b) = Inr b"
| "gt0 (JNum x) = Inr (positive x)"
| "gt0 (JStr s) = Inr (positive (Number s))"
| "gt0 (JArr vs) =
     (case joinElements vs of
        Inl e \<Rightarrow> Inl e
      | Inr s \<Rightarrow> Inr (positive (Number s)))"
| "gt0 (JObj kvs) = (if map_of kvs ''toString'' = None then Inr False else Inl TypeError)"

text \<open>\<^verbatim>\<open>v.length > 0\<close> for a truthy \<open>v\<close>.\<close>

fun lengthPositive :: "jsval \<Rightarrow> jserror + bool" where
  "lengthPositive (JArr vs) = Inr (vs \<noteq> [])"
| "lengthPositive (JStr s) = Inr (s \<noteq> [])"
| "lengthPositive (JObj kvs) =
     (case map_of kvs ''length'' of None \<Rightarrow> Inr False | Some v \<Rightarrow> gt0 v)"
| "lengthPositive v = Inr False"

text \<open>\<^verbatim>\<open>xs.map((item, index) => <li key={index}>{item}</li>)\<close>; only an array has \<^verbatim>\<open>map\<close>.\<close>

fun listItems :: "jsval \<Rightarrow> jserror + vnode list" where
  "listItems (JArr vs) = Inr (map (\<lambda>item. VElem ''li'' [VVal item]) vs)"
| "listItems v = Inl TypeError"

text \<open>
  \<^verbatim>\<open>mealData.shoppingList && mealData.shoppingList.length > 0 && (...)\<close>: the first falsy
  operand is the child, else the \<^verbatim>\<open>div\<close>.
\<close>

definition shoppingSection :: "jsval \<Rightarrow> jserror + vnode list" where
  "shoppingSection sl =
     (if \<not> truthy sl then Inr [VVal sl]
      else
        (case lengthPositive sl of
           Inl e \<Rightarrow> Inl e
         | Inr False \<Rightarrow> Inr [VVal (JBool False)]
         | Inr True \<Rightarrow>
             (case listItems sl of
                Inl e \<Rightarrow> Inl e
              | Inr items \<Rightarrow>
                  Inr [VElem ''div''
                         [VElem ''h5'' [VVal (JStr ''Shopping List'')],
                          VElem ''ul'' items]])))"

text \<open>One card: the body of the callback of \<^verbatim>\<open>mealPlan.map\<close>.\<close>

definition mealCard :: "jsval \<Rightarrow> jserror + vnode" where
  "mealCard mealData =
     (case getProp mealData ''mealType'' of Inl e \<Rightarrow> Inl e | Inr mt \<Rightarrow>
      case getProp mealData ''recipeName'' of Inl e \<Rightarrow> Inl e | Inr rn \<Rightarrow>
      case getProp mealData ''shoppingList'' of Inl e \<Rightarrow> Inl e | Inr sl \<Rightarrow>
      case shoppingSection sl of Inl e \<Rightarrow> Inl e | Inr shop \<Rightarrow>
      case getProp mealData ''ingredients'' of Inl e \<Rightarrow> Inl e | Inr ing \<Rightarrow>
      case listItems ing of Inl e \<Rightarrow> Inl e | Inr items \<Rightarrow>
      case getProp mealData ''instructions'' of Inl e \<Rightarrow> Inl e | Inr ins \<Rightarrow>
        Inr (VElem ''div''
               ([VElem ''h3'' [VVal mt], VElem ''h4'' [VVal rn]] @ shop @
                [VElem ''h5'' [VVal (JStr ''Ingredients'')], VElem ''ul'' items,
                 VElem ''h5'' [VVal (JStr ''Instructions'')], VElem ''p'' [VVal ins]])))"

text \<open>The cards of a list of meals; the first error ends the loop.\<close>

fun mealCards :: "jsval list \<Rightarrow> jserror + vnode list" where
  "mealCards [] = Inr []"
| "mealCards (m # ms) =
     (case mealCard m of
        Inl e \<Rightarrow> Inl e
      | Inr c \<Rightarrow>
          (case mealCards ms of
             Inl e \<Rightarrow> Inl e
           | Inr cs \<Rightarrow> Inr (c # cs)))"

text \<open>\<^verbatim>\<open>{mealPlan && (<section> ... {mealPlan.map(...)} ... </section>)}\<close>\<close>

definition resultsSection :: "jsval \<Rightarrow> jserror + vnode list" where
  "resultsSection mp =
     (if \<not> truthy mp then Inr [VVal mp]
      else
        (case mp of
           JArr ms \<Rightarrow>
             (case mealCards ms of
                Inl e \<Rightarrow> Inl e
              | Inr cs \<Rightarrow>
                  Inr [VElem ''section''
                         [VElem ''h2'' [VVal (JStr ''Your Personalized Meal Plan'')],
                          VElem ''div'' cs]])
         | _ \<Rightarrow> Inl TypeError))"

text \<open>\<^verbatim>\<open>{error && <p role="alert">{error}</p>}\<close>; the empty string is falsy.\<close>

definition errorSection :: "string option \<Rightarrow> vnode list" where
  "errorSection err =
     (case err of
        None \<Rightarrow> [VVal JNull]
      | Some m \<Rightarrow> if m = [] then [VVal (JStr [])] else [VElem ''p'' [VVal (JStr m)]])"

text \<open>\<^verbatim>\<open>{loading && (<div role="status"><div className="loader"></div></div>)}\<close>\<close>

definition loaderSection :: "bool \<Rightarrow> vnode list" where
  "loaderSection l = (if l then [VElem ''div'' [VElem ''div'' []]] else [VVal (JBool False)])"

text \<open>What \<^verbatim>\<open>App\<close> shows below the form: the loader, the error and the meal plan.\<close>

definition renderOutput :: "state \<Rightarrow> jserror + node list" where
  "renderOutput s =
     (case resultsSection (mealPlan s) of
        Inl e \<Rightarrow> Inl e
      | Inr rs \<Rightarrow> reconcileAll (loaderSection (loading s) @ errorSection (error s) @ rs))"

section \<open>Notions the properties are stated with\<close>

text \<open>\<open>contains needle hay\<close>: the text \<open>needle\<close> occurs in \<open>hay\<close>.\<close>

fun startsWith :: "string \<Rightarrow> string \<Rightarrow> bool" where
  "startsWith [] hay = True"
| "startsWith (c # cs) [] = False"
| "startsWith (c # cs) (d # ds) = (c = d \<and> startsWith cs ds)"

fun contains :: "string \<Rightarrow> string \<Rightarrow> bool" where
  "contains needle [] = (needle = [])"
| "contains needle (d # ds) = (startsWith needle (d # ds) \<or> contains needle ds)"

text \<open>
  A value conforms to a schema: a string to \<^verbatim>\<open>STRING\<close>; an array to \<^verbatim>\<open>ARRAY\<close> when its
  elements conform to the item schema; an object to \<^verbatim>\<open>OBJECT\<close> when it has every required
  property and each declared property it has conforms. The first function checks the
  declared properties an object has.
\<close>

fun conformsProps :: "(string \<times> schema) list \<Rightarrow> (string \<times> jsval) list \<Rightarrow> bool"
  and conforms :: "schema \<Rightarrow> jsval \<Rightarrow> bool"
where
  "conformsProps [] kvs = True"
| "conformsProps ((k, sch) # props) kvs =
     ((case map_of kvs k of None \<Rightarrow> True | Some v \<Rightarrow> conforms sch v) \<and>
      conformsProps props kvs)"
| "conforms STRING (JStr s) = True"
| "conforms STRING v = False"
| "conforms (ARRAY sch d) (JArr vs) = list_all (conforms sch) vs"
| "conforms (ARRAY sch d) v = False"
| "conforms (OBJECT props req) (JObj kvs) =
     (list_all (\<lambda>k. map_of kvs k \<noteq> None) req \<and> conformsProps props kvs)"
| "conforms (OBJECT props req) v = False"

text \<open>The \<^verbatim>\<open>Meal\<close> interface of the source; \<^verbatim>\<open>shoppingList\<close> is optional.\<close>

record meal =
  mealType :: string
  recipeName :: string
  ingredients :: "string list"
  instructions :: string
  shoppingList :: "string list option"

text \<open>The document nodes of a list, one \<^verbatim>\<open>li\<close> per item, in order.\<close>

definition itemNodes :: "string list \<Rightarrow> node list" where
  "itemNodes xs = map (\<lambda>x. Elem ''li'' (textNodes x)) xs"

text \<open>A parsed value as a \<^verbatim>\<open>Meal\<close>, when it has the shape of one.\<close>

fun stringOf :: "jsval \<Rightarrow> string option" where
  "stringOf (JStr s) = Some s"
| "stringOf v = None"

fun stringsOf :: "jsval list \<Rightarrow> string list option" where
  "stringsOf [] = Some []"
| "stringsOf (v # vs) =
     (case (stringOf v, stringsOf vs) of
        (Some s, Some ss) \<Rightarrow> Some (s # ss)
      | _ \<Rightarrow> None)"

fun stringArrayOf :: "jsval \<Rightarrow> string list option" where
  "stringArrayOf (JArr vs) = stringsOf vs"
| "stringArrayOf v = None"

definition mealOf :: "jsval \<Rightarrow> meal option" where
  "mealOf v =
     (case v of
        JObj kvs \<Rightarrow>
          (case (Option.bind (map_of kvs ''mealType'') stringOf,
                 Option.bind (map_of kvs ''recipeName'') stringOf,
                 Option.bind (map_of kvs ''ingredients'') stringArrayOf,
                 Option.bind (map_of kvs ''instructions'') stringOf) of
             (Some mt, Some rn, Some ing, Some ins) \<Rightarrow>
               (case map_of kvs ''shoppingList'' of
                  None \<Rightarrow>
                    Some \<lparr> mealType = mt, recipeName = rn, ingredients = ing,
                           instructions = ins, shoppingList = None \<rparr>
                | Some sl \<Rightarrow>
                    (case stringArrayOf sl of
                       None \<Rightarrow> None
                     | Some xs \<Rightarrow>
                         Some \<lparr> mealType = mt, recipeName = rn, ingredients = ing,
                                instructions = ins, shoppingList = Some xs \<rparr>))
           | _ \<Rightarrow> None)
      | _ \<Rightarrow> None)"

text \<open>
  The card of a meal as the document shows it: meal type, recipe name, the shopping list
  when there is one and it is not empty, the ingredients in order, the instructions.
\<close>

definition shownCard :: "meal \<Rightarrow> node" where
  "shownCard ml =
     Elem ''div''
       ([Elem ''h3'' (textNodes (mealType ml)), Elem ''h4'' (textNodes (recipeName ml))] @
        (case shoppingList ml of
           None \<Rightarrow> []
         | Some xs \<Rightarrow>
             if xs = [] then []
             else [Elem ''div'' [Elem ''h5'' [Text ''Shopping List''], Elem ''ul'' (itemNodes xs)]]) @
        [Elem ''h5'' [Text ''Ingredients''], Elem ''ul'' (itemNodes (ingredients ml)),
         Elem ''h5'' [Text ''Instructions''], Elem ''p'' (textNodes (instructions ml))])"

text \<open>The characters a number is printed with.\<close>

definition numberChars :: "char set" where
  "numberChars = set ''0123456789-+.eNaInfinity''"

text \<open>\<open>endsWith needle hay\<close>: the text \<open>hay\<close> ends with \<open>needle\<close>.\<close>

definition endsWith :: "string \<Rightarrow> string \<Rightarrow> bool" where
  "endsWith n h = startsWith (rev n) (rev h)"

text \<open>
  The text the prompt takes over from the state, each followed by a full stop in the
  template: user type, diet and meal-time list. The file content is the fourth embedded
  text; a line break follows it.
\<close>

definition promptFields :: "state \<Rightarrow> string list" where
  "promptFields s = [userType s, diet s, selectedMealNames (selectedMeals s)]"

text \<open>The two sentences of the shopping-list clause, without their full stops.\<close>

definition shoppingFirst :: string where
  "shoppingFirst = ''You can suggest ingredients that are not in the pantry list''"

definition shoppingSecond :: string where
  "shoppingSecond = '' If you do, please provide a separate '' @ [CHR 0x27] @ ''shoppingList'' @ [CHR 0x27] @ '' of items to buy for each recipe that requires them''"

text \<open>
  Whether the checkbox of a meal time is ticked after a sequence of events, when it was
  ticked or not (\<open>b\<close>) before: its last event decides.
\<close>

fun tickedFrom :: "bool \<Rightarrow> event list \<Rightarrow> string \<Rightarrow> bool" where
  "tickedFrom b [] m = b"
| "tickedFrom b (MealTimeChange nm checked # es) m =
     tickedFrom (if nm = m then checked else b) es m"
| "tickedFrom b (e # es) m = tickedFrom b es m"

definition ticked :: "event list \<Rightarrow> string \<Rightarrow> bool" where
  "ticked evs m = tickedFrom False evs m"

section \<open>A sample session\<close>

text \<open>
  A form filled in through its controls (snack is ticked before breakfast), and a platform
  on which the file read resolves and the service answers with a given text.
\<close>

definition pantryFile :: jsfile where
  "pantryFile = \<lparr> name = ''pantry.txt'' \<rparr>"

definition readyState :: state where
  "readyState =
     foldl handleEvent initialState
       [FileChange (Some [pantryFile]), UserTypeChange ''Student'', DietChange ''Vegan'',
        MealTimeChange ''snack'' True, MealTimeChange ''breakfast'' True]"

definition respondWith :: "string \<Rightarrow> platform" where
  "respondWith t =
     \<lparr> clientThrows = False,
       fileToText = (\<lambda>f. Resolved ''rice, egg, wok''),
       generateContent = (\<lambda>r. Resolved \<lparr> text' = Some t \<rparr>),
       JSON_parse = parseJSON \<rparr>"

definition stirFryText :: string where
  \<open>stirFryText = ''{"meals":[{"mealType":"dinner","recipeName":"Stir Fry","ingredients":["rice","egg"],"instructions":"Cook rice, fry egg, mix."}]}''\<close>

definition stirFry :: jsval where
  "stirFry =
     JObj [(''mealType'', JStr ''dinner''),
           (''recipeName'', JStr ''Stir Fry''),
           (''ingredients'', JArr [JStr ''rice'', JStr ''egg'']),
           (''instructions'', JStr ''Cook rice, fry egg, mix.'')]"

text \<open>
  The sample form after a successful submission, with both meal times unticked again: the
  meal plan is still there, and the guard fails.
\<close>

definition staleState :: state where
  "staleState =
     foldl handleEvent (submit (respondWith stirFryText) readyState)
       [MealTimeChange ''snack'' False, MealTimeChange ''breakfast'' False]"

text \<open>
  The sample form with new ingredients allowed, and a platform whose file read resolves
  with a given text.
\<close>

definition allowNewState :: state where
  "allowNewState = handleEvent readyState (PantryOptionChange ''allowNew'')"

definition pantrySays :: "string \<Rightarrow> platform" where
  "pantrySays c =
     \<lparr> clientThrows = False,
       fileToText = (\<lambda>f. Resolved c),
       generateContent = (\<lambda>r. Pending),
       JSON_parse = parseJSON \<rparr>"

text \<open>A response with a shopping list.\<close>

definition saladText :: string where
  \<open>saladText = ''{"meals":[{"mealType":"lunch","recipeName":"Salad","ingredients":["kale","oil"],"instructions":"Toss.","shoppingList":["lemon"]}]}''\<close>

section \<open>Properties\<close>

text \<open>
  C2. The submit control is enabled if and only if a file is selected, the diet is
  non-empty, the user type is non-empty, at least one meal time is selected (some
  property of \<^verbatim>\<open>selectedMeals\<close> is true) and no request is in flight.
\<close>

theorem submit_enabled_iff:
  "(\<not> submitDisabled s) =
     (file' s \<noteq> None \<and> diet s \<noteq> [] \<and> userType s \<noteq> [] \<and>
      (\<exists>m \<in> set (selectedMeals s). snd m) \<and> \<not> loading s)"
  by (auto simp: submitDisabled_def fieldsMissing_def atLeastOneMealSelected_def
      list_ex_iff)

subsection \<open>The two ways through the handler\<close>

lemma handleSubmit_missing:
  "fieldsMissing s \<Longrightarrow> handleSubmit p s = [PreventDefault, SetError (Some validationMessage)]"
  by (simp add: handleSubmit_def split: option.splits)

lemma handleSubmit_ready:
  "\<not> fieldsMissing s \<Longrightarrow> file' s = Some f \<Longrightarrow>
   handleSubmit p s =
     [PreventDefault, SetLoading True, SetError None, SetMealPlan JNull] @ tryBlock p s f"
  by (simp add: handleSubmit_def)

lemma ready_has_file: "\<not> fieldsMissing s \<Longrightarrow> \<exists>f. file' s = Some f"
  by (auto simp: fieldsMissing_def)

lemma run_append: "run s (xs @ ys) = run (run s xs) ys"
  by (simp add: run_def)

lemma run_catchBlock:
  "run s catchBlock = s\<lparr>error := Some genericMessage, loading := False\<rparr>"
  by (simp add: run_def catchBlock_def finallyBlock_def)

lemma trace_append: "trace s (xs @ ys) = trace s xs @ trace (run s xs) ys"
  by (induction xs arbitrary: s) (simp_all add: run_def)

text \<open>
  C3. In every state in which the file is absent, or the diet is empty, or the user type
  is empty, or no meal time is selected, submitting sets the error to "Please fill in all
  the required fields.", creates no client, reads no file, sends no request, and leaves
  the loading flag as it was (false, when it was false) in every state it goes through.
\<close>

theorem validation_failure_aborts:
  assumes "file' s = None \<or> diet s = [] \<or> userType s = [] \<or>
           \<not> (\<exists>m \<in> set (selectedMeals s). snd m)"
  shows "error (submit p s) = Some ''Please fill in all the required fields.'' \<and>
         NewGoogleGenAI \<notin> set (handleSubmit p s) \<and>
         (\<forall>f. ReadAsText f \<notin> set (handleSubmit p s)) \<and>
         (\<forall>r. GenerateContent r \<notin> set (handleSubmit p s)) \<and>
         (\<forall>t \<in> set (trace s (handleSubmit p s)). loading t = loading s) \<and>
         loading (submit p s) = loading s"
proof -
  from assms have "fieldsMissing s"
    by (auto simp: fieldsMissing_def atLeastOneMealSelected_def list_ex_iff)
  then have "handleSubmit p s = [PreventDefault, SetError (Some validationMessage)]"
    by (rule handleSubmit_missing)
  then show ?thesis
    by (simp add: submit_def run_def validationMessage_def)
qed


text \<open>The untouched form: no file is selected.\<close>

theorem validation_failure_aborts_witness:
  "file' initialState = None \<and>
   error (submit (respondWith stirFryText) initialState) =
     Some ''Please fill in all the required fields.'' \<and>
   NewGoogleGenAI \<notin> set (handleSubmit (respondWith stirFryText) initialState) \<and>
   loading (submit (respondWith stirFryText) initialState) = False"
proof -
  have 1: "file' initialState = None" by (simp add: initialState_def)
  have 2: "loading initialState = False" by (simp add: initialState_def)
  from validation_failure_aborts [of initialState "respondWith stirFryText"] 1 2
  show ?thesis by simp
qed

subsection \<open>Failures of the pipeline\<close>

lemma getProp_defined: "v \<noteq> JNull \<Longrightarrow> v \<noteq> Undefined \<Longrightarrow> \<exists>m. getProp v k = Inr m"
  by (cases v) (simp_all split: option.split)

text \<open>
  C1, as the code has it. For every submission that passes the guard: when the client's
  constructor throws, the file read rejects, the request rejects, \<^verbatim>\<open>JSON.parse\<close> throws, or
  the response parses to \<^verbatim>\<open>null\<close> (so that reading \<^verbatim>\<open>meals\<close> throws), the error is the
  generic message, the result is \<^verbatim>\<open>null\<close> and the loading flag is false. Any other
  parsed value is not compared with the schema: the result becomes its \<^verbatim>\<open>meals\<close>
  property (\<^verbatim>\<open>undefined\<close> when it has none), the error stays \<^verbatim>\<open>null\<close> and the loading
  flag is false.
\<close>

theorem pipeline_failure_generic:
  assumes "\<not> fieldsMissing s" and "file' s = Some f"
  shows
    "(clientThrows p \<or> fileToText p f = Rejected \<or>
      (\<exists>c. fileToText p f = Resolved c \<and>
         (generateContent p (mkRequest (composePrompt s c)) = Rejected \<or>
          (\<exists>r. generateContent p (mkRequest (composePrompt s c)) = Resolved r \<and>
             ((\<exists>e. JSON_parse p (parseArgument r) = Inl e) \<or>
              JSON_parse p (parseArgument r) = Inr JNull \<or>
              JSON_parse p (parseArgument r) = Inr Undefined))))
      \<longrightarrow> error (submit p s) = Some genericMessage \<and> mealPlan (submit p s) = JNull \<and>
          \<not> loading (submit p s)) \<and>
     (\<forall>c r v. \<not> clientThrows p \<and> fileToText p f = Resolved c \<and>
        generateContent p (mkRequest (composePrompt s c)) = Resolved r \<and>
        JSON_parse p (parseArgument r) = Inr v \<and> v \<noteq> JNull \<and> v \<noteq> Undefined
        \<longrightarrow> getProp v ''meals'' = Inr (mealPlan (submit p s)) \<and> error (submit p s) = None \<and>
            \<not> loading (submit p s))"
proof (intro conjI allI impI)
  fix c r v
  assume a: "\<not> clientThrows p \<and> fileToText p f = Resolved c \<and>
        generateContent p (mkRequest (composePrompt s c)) = Resolved r \<and>
        JSON_parse p (parseArgument r) = Inr v \<and> v \<noteq> JNull \<and> v \<noteq> Undefined"
  then obtain m where m: "getProp v ''meals'' = Inr m"
    using getProp_defined by blast
  with a assms have "submit p s = s\<lparr>loading := False, error := None, mealPlan := m\<rparr>"
    by (simp add: submit_def handleSubmit_ready tryBlock_def onResponse_def run_def
        finallyBlock_def)
  with m show "getProp v ''meals'' = Inr (mealPlan (submit p s))"
    "error (submit p s) = None" "\<not> loading (submit p s)" by simp_all
qed (use assms in \<open>auto simp: submit_def handleSubmit_ready tryBlock_def onResponse_def run_def
      catchBlock_def finallyBlock_def\<close>)

text \<open>The sample form, answered with the malformed text \<^verbatim>\<open>{\<close>.\<close>

theorem pipeline_failure_generic_witness:
  "\<not> fieldsMissing readyState \<and> file' readyState = Some pantryFile \<and>
   JSON_parse (respondWith ''{'') ''{'' = Inl SyntaxError \<and>
   error (submit (respondWith ''{'') readyState) = Some genericMessage \<and>
   mealPlan (submit (respondWith ''{'') readyState) = JNull \<and>
   \<not> loading (submit (respondWith ''{'') readyState)"
proof -
  have 1: "\<not> fieldsMissing readyState" by code_simp
  have 2: "file' readyState = Some pantryFile" by code_simp
  have 3: "JSON_parse (respondWith ''{'') ''{'' = Inl SyntaxError" by code_simp
  have 4: "fileToText (respondWith ''{'') pantryFile = Resolved ''rice, egg, wok''"
    by (simp add: respondWith_def)
  have 5: "generateContent (respondWith ''{'')
             (mkRequest (composePrompt readyState ''rice, egg, wok''))
           = Resolved \<lparr> text' = Some ''{'' \<rparr>"
    by (simp add: respondWith_def)
  have 6: "parseArgument \<lparr> text' = Some ''{'' \<rparr> = ''{''"
    by (simp add: parseArgument_def)
  from pipeline_failure_generic [OF 1 2, of "respondWith ''{''"] 3 4 5 6
  have "error (submit (respondWith ''{'') readyState) = Some genericMessage \<and>
        mealPlan (submit (respondWith ''{'') readyState) = JNull \<and>
        \<not> loading (submit (respondWith ''{'') readyState)"
    by metis
  with 1 2 3 show ?thesis by simp
qed

text \<open>
  C1 as stated fails for a response that is valid JSON and does not match the schema. The
  text \<^verbatim>\<open>{}\<close> has no \<^verbatim>\<open>meals\<close>: the result becomes \<^verbatim>\<open>undefined\<close> and no error is set.
  The text \<^verbatim>\<open>{"meals":5}\<close> does not conform to the declared schema: the result becomes the
  number 5 and no error is set.
\<close>

theorem schema_mismatch_counterexample:
  \<open>\<not> fieldsMissing readyState \<and>
   JSON_parse (respondWith ''{}'') ''{}'' = Inr (JObj []) \<and>
   error (submit (respondWith ''{}'') readyState) = None \<and>
   mealPlan (submit (respondWith ''{}'') readyState) = Undefined \<and>
   JSON_parse (respondWith ''{"meals":5}'') ''{"meals":5}'' =
     Inr (JObj [(''meals'', JNum (Finite 5 0))]) \<and>
   \<not> conforms responseSchema (JObj [(''meals'', JNum (Finite 5 0))]) \<and>
   error (submit (respondWith ''{"meals":5}'') readyState) = None \<and>
   mealPlan (submit (respondWith ''{"meals":5}'') readyState) = JNum (Finite 5 0)\<close>
  by code_simp

subsection \<open>The loading flag\<close>

lemma trace_no_SetLoading:
  "\<forall>b. SetLoading b \<notin> set es \<Longrightarrow> t \<in> set (trace s0 es) \<Longrightarrow> loading t = loading s0"
proof (induction es arbitrary: s0)
  case Nil
  then show ?case by simp
next
  case (Cons e es)
  have "loading (applyEffect s0 e) = loading s0"
    using Cons.prems(1) by (cases e) auto
  with Cons show ?case by auto
qed

lemma run_no_SetLoading:
  "\<forall>b. SetLoading b \<notin> set es \<Longrightarrow> loading (run s0 es) = loading s0"
proof (induction es arbitrary: s0)
  case Nil
  then show ?case by (simp add: run_def)
next
  case (Cons e es)
  have "loading (applyEffect s0 e) = loading s0"
    using Cons.prems by (cases e) auto
  with Cons show ?case by (simp add: run_def)
qed

lemma settles_ready:
  "\<not> fieldsMissing s \<Longrightarrow> file' s = Some f \<Longrightarrow>
   settles p s =
     (clientThrows p \<or>
      (case fileToText p f of
         Pending \<Rightarrow> False
       | Rejected \<Rightarrow> True
       | Resolved c \<Rightarrow> generateContent p (mkRequest (composePrompt s c)) \<noteq> Pending))"
  by (simp add: settles_def)

lemma onResponse_shape:
  "onResponse p r \<noteq> [] \<and> last (onResponse p r) = SetLoading False \<and>
   (\<forall>b. SetLoading b \<notin> set (butlast (onResponse p r)))"
  by (simp add: onResponse_def catchBlock_def finallyBlock_def split: sum.splits)

lemma catchBlock_shape:
  "catchBlock \<noteq> [] \<and> last catchBlock = SetLoading False \<and>
   (\<forall>b. SetLoading b \<notin> set (butlast catchBlock))"
  by (simp add: catchBlock_def finallyBlock_def)

lemma tryBlock_settled:
  assumes "\<not> fieldsMissing s" "file' s = Some f" "settles p s"
  shows "tryBlock p s f \<noteq> [] \<and> last (tryBlock p s f) = SetLoading False \<and>
         (\<forall>b. SetLoading b \<notin> set (butlast (tryBlock p s f)))"
  using assms onResponse_shape catchBlock_shape
  by (auto simp: settles_ready tryBlock_def Let_def split: settled.splits)

lemma tryBlock_pending:
  assumes "\<not> fieldsMissing s" "file' s = Some f" "\<not> settles p s"
  shows "\<forall>b. SetLoading b \<notin> set (tryBlock p s f)"
  using assms
  by (auto simp: settles_ready tryBlock_def Let_def split: settled.splits)

lemma tryBlock_split:
  assumes "\<not> fieldsMissing s" "file' s = Some f"
  shows "\<exists>mid. tryBlock p s f = mid @ (if settles p s then [SetLoading False] else []) \<and>
           (\<forall>b. SetLoading b \<notin> set mid)"
proof (cases "settles p s")
  case True
  from tryBlock_settled [OF assms True]
  have "tryBlock p s f = butlast (tryBlock p s f) @ [SetLoading False]"
    and "\<forall>b. SetLoading b \<notin> set (butlast (tryBlock p s f))"
    by (metis append_butlast_last_id, blast)
  with True show ?thesis by auto
next
  case False
  with tryBlock_pending [OF assms False] show ?thesis by auto
qed

text \<open>
  C7. A submission that fails the guard never sets the loading flag, which keeps its value
  in every state. A submission that passes it sets the flag first; no later effect but the
  last touches it, so it is true in every state in between; and the last effect of a
  submission whose promises settle, whatever the outcome, clears it. The flag is still
  true at the end exactly when an awaited promise never settles.
\<close>

theorem loading_flag_lifecycle:
  "(fieldsMissing s \<longrightarrow>
      (\<forall>b. SetLoading b \<notin> set (handleSubmit p s)) \<and>
      (\<forall>t \<in> set (trace s (handleSubmit p s)). loading t = loading s)) \<and>
   (\<not> fieldsMissing s \<longrightarrow>
      (\<exists>mid. handleSubmit p s =
                [PreventDefault, SetLoading True] @ mid @
                (if settles p s then [SetLoading False] else []) \<and>
             (\<forall>b. SetLoading b \<notin> set mid) \<and>
             (\<forall>t \<in> set (trace (s\<lparr>loading := True\<rparr>) mid). loading t)) \<and>
      loading (submit p s) = (\<not> settles p s))"
proof (intro conjI impI)
  assume "fieldsMissing s"
  then have h: "handleSubmit p s = [PreventDefault, SetError (Some validationMessage)]"
    by (rule handleSubmit_missing)
  then show "\<forall>b. SetLoading b \<notin> set (handleSubmit p s)" by simp
  from h show "\<forall>t \<in> set (trace s (handleSubmit p s)). loading t = loading s" by simp
next
  assume ready: "\<not> fieldsMissing s"
  then obtain f where f: "file' s = Some f" using ready_has_file by blast
  from tryBlock_split [OF ready f] obtain mid0 where
    mid0: "tryBlock p s f = mid0 @ (if settles p s then [SetLoading False] else [])"
      "\<forall>b. SetLoading b \<notin> set mid0" by blast
  let ?mid = "[SetError None, SetMealPlan JNull] @ mid0"
  have shape: "handleSubmit p s =
      [PreventDefault, SetLoading True] @ ?mid @ (if settles p s then [SetLoading False] else [])"
    using mid0(1) by (simp add: handleSubmit_ready [OF ready f])
  have no: "\<forall>b. SetLoading b \<notin> set ?mid" using mid0(2) by simp
  have tr: "\<forall>t \<in> set (trace (s\<lparr>loading := True\<rparr>) ?mid). loading t"
    using trace_no_SetLoading [OF no] by fastforce
  from shape no tr show "\<exists>mid. handleSubmit p s =
                [PreventDefault, SetLoading True] @ mid @
                (if settles p s then [SetLoading False] else []) \<and>
             (\<forall>b. SetLoading b \<notin> set mid) \<and>
             (\<forall>t \<in> set (trace (s\<lparr>loading := True\<rparr>) mid). loading t)" by blast
  have "loading (run (s\<lparr>loading := True\<rparr>) ?mid)"
    using run_no_SetLoading [OF no] by simp
  then show "loading (submit p s) = (\<not> settles p s)"
    unfolding submit_def shape by (simp add: run_def)
qed

text \<open>The untouched form fails the guard; the filled one, answered, runs to its end.\<close>

theorem loading_flag_lifecycle_witness:
  "fieldsMissing initialState \<and>
   SetLoading True \<notin> set (handleSubmit (respondWith stirFryText) initialState) \<and>
   \<not> fieldsMissing readyState \<and> settles (respondWith stirFryText) readyState \<and>
   \<not> loading (submit (respondWith stirFryText) readyState)"
proof -
  have 1: "fieldsMissing initialState" by code_simp
  have 2: "\<not> fieldsMissing readyState" by code_simp
  have 3: "settles (respondWith stirFryText) readyState" by code_simp
  from loading_flag_lifecycle [of initialState "respondWith stirFryText"] 1
  have 4: "SetLoading True \<notin> set (handleSubmit (respondWith stirFryText) initialState)"
    by blast
  from loading_flag_lifecycle [of readyState "respondWith stirFryText"] 2 3
  have 5: "\<not> loading (submit (respondWith stirFryText) readyState)"
    by blast
  from 1 2 3 4 5 show ?thesis by blast
qed

subsection \<open>A successful submission\<close>

lemma parse_stirFryText: "parseJSON stirFryText = Inr (JObj [(''meals'', JArr [stirFry])])"
  unfolding stirFryText_def stirFry_def by code_simp

text \<open>
  C6. When a submission passes the guard, the file read resolves, and the service answers
  with the text of the stir-fry example, which the platform parses as the JSON grammar
  says, then the result state is the list of that one meal (with its four fields and no
  shopping list), the loading flag is false and the error is \<^verbatim>\<open>null\<close>.
\<close>

theorem successful_response_sets_result:
  assumes "\<not> fieldsMissing s" and "file' s = Some f"
    and "\<not> clientThrows p" and "fileToText p f = Resolved c"
    and "generateContent p (mkRequest (composePrompt s c)) = Resolved r"
    and "text' r = Some stirFryText"
    and "JSON_parse p = parseJSON"
  shows "mealPlan (submit p s) = JArr [stirFry] \<and>
         map mealOf [stirFry] =
           [Some \<lparr> mealType = ''dinner'', recipeName = ''Stir Fry'',
                    ingredients = [''rice'', ''egg''],
                    instructions = ''Cook rice, fry egg, mix.'', shoppingList = None \<rparr>] \<and>
         \<not> loading (submit p s) \<and> error (submit p s) = None"
proof -
  have "parseArgument r = stirFryText"
    using assms(6) by (simp add: parseArgument_def)
  then have "onResponse p r = [SetMealPlan (JArr [stirFry]), SetLoading False]"
    using assms(7) by (simp add: onResponse_def parse_stirFryText finallyBlock_def)
  then have "submit p s = s\<lparr>loading := False, error := None, mealPlan := JArr [stirFry]\<rparr>"
    using assms(1-5)
    by (simp add: submit_def handleSubmit_ready tryBlock_def run_def)
  moreover have "mealOf stirFry =
           Some \<lparr> mealType = ''dinner'', recipeName = ''Stir Fry'',
                    ingredients = [''rice'', ''egg''],
                    instructions = ''Cook rice, fry egg, mix.'', shoppingList = None \<rparr>"
    by (simp add: mealOf_def stirFry_def)
  ultimately show ?thesis by simp
qed

text \<open>The sample form and the sample platform.\<close>

theorem successful_response_sets_result_witness:
  "\<not> fieldsMissing readyState \<and> file' readyState = Some pantryFile \<and>
   mealPlan (submit (respondWith stirFryText) readyState) = JArr [stirFry] \<and>
   \<not> loading (submit (respondWith stirFryText) readyState) \<and>
   error (submit (respondWith stirFryText) readyState) = None"
proof -
  let ?p = "respondWith stirFryText"
  have 1: "\<not> fieldsMissing readyState" by code_simp
  have 2: "file' readyState = Some pantryFile" by code_simp
  have 3: "\<not> clientThrows ?p" by (simp add: respondWith_def)
  have 4: "fileToText ?p pantryFile = Resolved ''rice, egg, wok''"
    by (simp add: respondWith_def)
  have 5: "generateContent ?p (mkRequest (composePrompt readyState ''rice, egg, wok''))
           = Resolved \<lparr> text' = Some stirFryText \<rparr>"
    by (simp add: respondWith_def)
  have 6: "text' \<lparr> text' = Some stirFryText \<rparr> = Some stirFryText" by simp
  have 7: "JSON_parse ?p = parseJSON" by (simp add: respondWith_def)
  from successful_response_sets_result [OF 1 2 3 4 5 6 7] 1 2
  show ?thesis by simp
qed

subsection \<open>The frame of a rejected submission\<close>

text \<open>
  C9. A submission that fails the guard writes the error cell and nothing else: the final
  state is the initial one with the validation message as its error, and no state in
  between differs from these two; so the meal plan, the loading flag and every form field
  keep their values. What is shown below the form is the validation message followed by
  the meal plan that was there before.
\<close>

theorem validation_failure_frame:
  assumes "fieldsMissing s"
  shows "submit p s = s\<lparr>error := Some validationMessage\<rparr> \<and>
         (\<forall>t \<in> set (trace s (handleSubmit p s)).
            t = s \<or> t = s\<lparr>error := Some validationMessage\<rparr>) \<and>
         renderOutput (submit p s) =
           (case resultsSection (mealPlan s) of
              Inl e \<Rightarrow> Inl e
            | Inr rs \<Rightarrow>
                reconcileAll
                  (loaderSection (loading s) @
                   [VElem ''p'' [VVal (JStr validationMessage)]] @ rs))"
proof -
  have h: "handleSubmit p s = [PreventDefault, SetError (Some validationMessage)]"
    using assms by (rule handleSubmit_missing)
  then have s: "submit p s = s\<lparr>error := Some validationMessage\<rparr>"
    by (simp add: submit_def run_def)
  have e: "errorSection (Some validationMessage) = [VElem ''p'' [VVal (JStr validationMessage)]]"
    by (simp add: errorSection_def validationMessage_def)
  from h s e show ?thesis
    by (simp add: renderOutput_def split: sum.split)
qed

text \<open>A failed submission after a successful one.\<close>

theorem validation_failure_frame_witness:
  "fieldsMissing staleState \<and> mealPlan staleState = JArr [stirFry] \<and>
   submit (respondWith stirFryText) staleState =
     staleState\<lparr>error := Some validationMessage\<rparr> \<and>
   mealPlan (submit (respondWith stirFryText) staleState) = JArr [stirFry] \<and>
   renderOutput (submit (respondWith stirFryText) staleState) =
     Inr [Elem ''p'' [Text ''Please fill in all the required fields.''],
          Elem ''section''
            [Elem ''h2'' [Text ''Your Personalized Meal Plan''],
             Elem ''div''
               [Elem ''div''
                  [Elem ''h3'' [Text ''dinner''], Elem ''h4'' [Text ''Stir Fry''],
                   Elem ''h5'' [Text ''Ingredients''],
                   Elem ''ul'' [Elem ''li'' [Text ''rice''], Elem ''li'' [Text ''egg'']],
                   Elem ''h5'' [Text ''Instructions''],
                   Elem ''p'' [Text ''Cook rice, fry egg, mix.'']]]]]"
proof -
  have 1: "fieldsMissing staleState" by code_simp
  have 2: "mealPlan staleState = JArr [stirFry]" by code_simp
  have 3: "(case resultsSection (mealPlan staleState) of
              Inl e \<Rightarrow> Inl e
            | Inr rs \<Rightarrow>
                reconcileAll
                  (loaderSection (loading staleState) @
                   [VElem ''p'' [VVal (JStr validationMessage)]] @ rs)) =
     Inr [Elem ''p'' [Text ''Please fill in all the required fields.''],
          Elem ''section''
            [Elem ''h2'' [Text ''Your Personalized Meal Plan''],
             Elem ''div''
               [Elem ''div''
                  [Elem ''h3'' [Text ''dinner''], Elem ''h4'' [Text ''Stir Fry''],
                   Elem ''h5'' [Text ''Ingredients''],
                   Elem ''ul'' [Elem ''li'' [Text ''rice''], Elem ''li'' [Text ''egg'']],
                   Elem ''h5'' [Text ''Instructions''],
                   Elem ''p'' [Text ''Cook rice, fry egg, mix.'']]]]]"
    by code_simp
  note frame = validation_failure_frame [OF 1, of "respondWith stirFryText"]
  from frame have a: "submit (respondWith stirFryText) staleState =
     staleState\<lparr>error := Some validationMessage\<rparr>"
    by (rule conjunct1)
  from a 2 have b: "mealPlan (submit (respondWith stirFryText) staleState) = JArr [stirFry]"
    by simp
  from frame have "renderOutput (submit (respondWith stirFryText) staleState) =
           (case resultsSection (mealPlan staleState) of
              Inl e \<Rightarrow> Inl e
            | Inr rs \<Rightarrow>
                reconcileAll
                  (loaderSection (loading staleState) @
                   [VElem ''p'' [VVal (JStr validationMessage)]] @ rs))"
    by blast
  from this 3 have c: "renderOutput (submit (respondWith stirFryText) staleState) =
     Inr [Elem ''p'' [Text ''Please fill in all the required fields.''],
          Elem ''section''
            [Elem ''h2'' [Text ''Your Personalized Meal Plan''],
             Elem ''div''
               [Elem ''div''
                  [Elem ''h3'' [Text ''dinner''], Elem ''h4'' [Text ''Stir Fry''],
                   Elem ''h5'' [Text ''Ingredients''],
                   Elem ''ul'' [Elem ''li'' [Text ''rice''], Elem ''li'' [Text ''egg'']],
                   Elem ''h5'' [Text ''Instructions''],
                   Elem ''p'' [Text ''Cook rice, fry egg, mix.'']]]]]"
    by (rule trans)
  from 1 2 a b c show ?thesis by blast
qed

subsection \<open>The order of the meal times\<close>

lemma map_fst_setProp:
  "k \<in> fst ` set kvs \<Longrightarrow> map fst (setProp kvs k v) = map fst kvs"
  by (induction kvs) force+

lemma map_of_setProp: "map_of (setProp kvs k v) = (map_of kvs)(k \<mapsto> v)"
  by (induction kvs) auto

lemma handleEvent_keys:
  assumes "map fst (selectedMeals s) = mealTimeOptions" and "fromForm e"
  shows "map fst (selectedMeals (handleEvent s e)) = mealTimeOptions"
proof (cases e)
  case (MealTimeChange nm checked)
  with assms(2) have "nm \<in> set (map fst (selectedMeals s))"
    by (simp add: assms(1))
  then have "nm \<in> fst ` set (selectedMeals s)" by simp
  with MealTimeChange assms(1) show ?thesis
    by (simp add: handleMealTimeChange_def map_fst_setProp)
next
  case (FileChange files)
  with assms(1) show ?thesis
    by (simp add: handleFileChange_def split: option.split list.split)
qed (use assms(1) in simp_all)

lemma handleEvent_value:
  assumes "map_of (selectedMeals s) m = Some b"
  shows "map_of (selectedMeals (handleEvent s e)) m = Some (tickedFrom b [e] m)"
proof (cases e)
  case (MealTimeChange nm checked)
  with assms show ?thesis
    by (simp add: handleMealTimeChange_def map_of_setProp)
next
  case (FileChange files)
  with assms show ?thesis
    by (simp add: handleFileChange_def split: option.split list.split)
qed (use assms in simp_all)

lemma tickedFrom_Cons: "tickedFrom b (e # es) m = tickedFrom (tickedFrom b [e] m) es m"
  by (cases e) simp_all

lemma events_invariant:
  assumes "\<forall>e \<in> set evs. fromForm e"
    and "map fst (selectedMeals s) = mealTimeOptions"
    and "map_of (selectedMeals s) m = Some b"
  shows "map fst (selectedMeals (foldl handleEvent s evs)) = mealTimeOptions \<and>
         map_of (selectedMeals (foldl handleEvent s evs)) m = Some (tickedFrom b evs m)"
  using assms
proof (induction evs arbitrary: s b)
  case Nil
  then show ?case by simp
next
  case (Cons e evs)
  have k: "map fst (selectedMeals (handleEvent s e)) = mealTimeOptions"
    using Cons.prems by (simp add: handleEvent_keys)
  have v: "map_of (selectedMeals (handleEvent s e)) m = Some (tickedFrom b [e] m)"
    using Cons.prems(3) by (rule handleEvent_value)
  from Cons.IH [OF _ k v] Cons.prems(1) show ?case
    by (simp add: tickedFrom_Cons [of b e evs])
qed

lemma initial_value:
  "m \<in> set mealTimeOptions \<Longrightarrow> map_of (selectedMeals initialState) m = Some False"
  by (auto simp: mealTimeOptions_def initialState_def)

text \<open>
  C4. After any sequence of events of the form, in whatever order the checkboxes were
  toggled, the comma-joined list is the enumeration breakfast, brunch, lunch, snack,
  dinner restricted to the meal times that are ticked at the end, and this list is what
  the composed prompt embeds.
\<close>

theorem meal_names_in_enumeration_order:
  assumes "\<forall>e \<in> set evs. fromForm e"
  shows "selectedMealNames (selectedMeals (foldl handleEvent initialState evs)) =
           join '', '' (filter (ticked evs) mealTimeOptions) \<and>
         (\<forall>c. composePrompt (foldl handleEvent initialState evs) c =
            promptHead (userType (foldl handleEvent initialState evs))
              (numPeople (foldl handleEvent initialState evs))
              (diet (foldl handleEvent initialState evs))
              (join '', '' (filter (ticked evs) mealTimeOptions)) c @
            pantryInstruction (pantryOption (foldl handleEvent initialState evs)) @ promptTail)"
proof -
  let ?s = "foldl handleEvent initialState evs"
  have k0: "map fst (selectedMeals initialState) = mealTimeOptions"
    by (simp add: initialState_def mealTimeOptions_def)
  have keys: "map fst (selectedMeals ?s) = mealTimeOptions"
    using events_invariant [OF assms k0 initial_value [of "''dinner''"]]
    by (simp add: mealTimeOptions_def)
  have "map_of (selectedMeals ?s) m = Some True \<longleftrightarrow> ticked evs m"
    if "m \<in> set mealTimeOptions" for m
    using events_invariant [OF assms k0 initial_value [OF that]]
    by (simp add: ticked_def)
  then have "filter (\<lambda>m. map_of (selectedMeals ?s) m = Some True) mealTimeOptions =
             filter (ticked evs) mealTimeOptions"
    by (intro filter_cong) auto
  with keys have n: "selectedMealNames (selectedMeals ?s) =
      join '', '' (filter (ticked evs) mealTimeOptions)"
    by (simp add: selectedMealNames_def)
  then show ?thesis by (simp add: composePrompt_def)
qed

text \<open>Ticking snack, then breakfast.\<close>

theorem meal_names_in_enumeration_order_witness:
  "fromForm (MealTimeChange ''snack'' True) \<and> fromForm (MealTimeChange ''breakfast'' True) \<and>
   selectedMealNames (selectedMeals (foldl handleEvent initialState
      [MealTimeChange ''snack'' True, MealTimeChange ''breakfast'' True])) = ''breakfast, snack''"
proof -
  let ?evs = "[MealTimeChange ''snack'' True, MealTimeChange ''breakfast'' True]"
  have 1: "\<forall>e \<in> set ?evs. fromForm e" by (simp add: mealTimeOptions_def)
  have 2: "join '', '' (filter (ticked ?evs) mealTimeOptions) = ''breakfast, snack''"
    by code_simp
  from meal_names_in_enumeration_order [OF 1] 1 2 show ?thesis by simp
qed

subsection \<open>The pantry clause\<close>

lemma digit_nth: "k < 10 \<Longrightarrow> ''0123456789'' ! k \<in> numberChars"
proof -
  assume "k < 10"
  then have "''0123456789'' ! k \<in> set ''0123456789''"
    by (intro nth_mem) simp
  also have "set ''0123456789'' \<subseteq> numberChars"
    unfolding numberChars_def by auto
  finally show ?thesis .
qed

lemma digits_chars: "set (digits n) \<subseteq> numberChars"
proof (induction n rule: digits.induct)
  case (1 n)
  show ?case
  proof (cases "n < 10")
    case True
    then show ?thesis using digit_nth [of "nat n"] by (subst digits.simps) simp
  next
    case False
    have "set (digits (n div 10)) \<subseteq> numberChars" using 1 False by simp
    moreover have "''0123456789'' ! nat (n mod 10) \<in> numberChars"
      by (rule digit_nth) simp
    ultimately show ?thesis using False by (subst digits.simps) simp
  qed
qed

lemma formatDigits_chars:
  assumes a: "set ds \<subseteq> numberChars"
  shows "set (formatDigits ds n) \<subseteq> numberChars"
proof -
  have d: "set (digits k) \<subseteq> numberChars" for k
    by (rule digits_chars)
  have t: "set (take k ds) \<subseteq> numberChars" for k
    using a set_take_subset [of k ds] by blast
  have r: "set (drop k ds) \<subseteq> numberChars" for k
    using a set_drop_subset [of k ds] by blast
  have c: "CHR ''0'' \<in> numberChars" "CHR ''.'' \<in> numberChars" "CHR ''e'' \<in> numberChars"
    "CHR ''+'' \<in> numberChars" "CHR ''-'' \<in> numberChars"
    by (simp_all add: numberChars_def)
  have z: "set (replicate k (CHR ''0'')) \<subseteq> numberChars" for k
    using c(1) by auto
  show ?thesis
    unfolding formatDigits_def Let_def
    using d t r a c z by (simp del: replicate.simps)
qed

lemma Number_toString_chars: "set (Number_toString x) \<subseteq> numberChars"
proof (cases x)
  case (Finite m e)
  let ?all = "digits \<bar>m\<bar>"
  let ?ds = "rev (dropWhile (\<lambda>c. c = CHR ''0'') (rev ?all))"
  have "set ?ds \<subseteq> set ?all"
    using set_dropWhileD [of _ "\<lambda>c. c = CHR ''0''" "rev ?all"] by auto
  then have "set ?ds \<subseteq> numberChars"
    using digits_chars [of "\<bar>m\<bar>"] by blast
  then have f: "set (formatDigits ?ds n) \<subseteq> numberChars" for n
    by (rule formatDigits_chars)
  have c: "CHR ''0'' \<in> numberChars" "CHR ''-'' \<in> numberChars"
    by (simp_all add: numberChars_def)
  show ?thesis
    unfolding Finite Number_toString_def Let_def
    using f c by auto
qed (simp_all add: Number_toString_def numberChars_def)

lemma Number_toString_no_S: "CHR ''S'' \<notin> set (Number_toString x)"
  using Number_toString_chars [of x] by (auto simp: numberChars_def)

lemma startsWith_append: "startsWith n (n @ b)"
  by (induction n) simp_all

lemma contains_here: "startsWith n h \<Longrightarrow> contains n h"
  by (cases h; cases n) simp_all

lemma contains_append: "contains n (a @ n @ b)"
proof (induction a)
  case Nil
  show ?case using contains_here [OF startsWith_append] by simp
next
  case (Cons x a)
  then show ?case by simp
qed

lemma startsWith_set: "startsWith n h \<Longrightarrow> set n \<subseteq> set h"
  by (induction n h rule: startsWith.induct) auto

lemma contains_set: "contains n h \<Longrightarrow> set n \<subseteq> set h"
proof (induction h)
  case Nil
  then show ?case by simp
next
  case (Cons d ds)
  then show ?case using startsWith_set [of n "d # ds"] by auto
qed

lemma S_in_strict: "CHR ''S'' \<in> set strictClause"
  by (simp add: strictClause_def)

lemma S_not_in_shopping: "CHR ''S'' \<notin> set shoppingClause"
  by (simp add: shoppingClause_def)

lemma tail_chars: "CHR ''S'' \<notin> set promptTail"
  by (simp add: promptTail_def nl_def indent_def)

text \<open>
  C5 as stated fails: the file content is embedded as it is, so a pantry file that holds
  the strict clause puts both clauses into the prompt of an \<^verbatim>\<open>allowNew\<close> submission.
\<close>

theorem both_clauses_counterexample:
  "\<not> fieldsMissing allowNewState \<and> pantryOption allowNewState = ''allowNew'' \<and>
   fileToText (pantrySays strictClause) pantryFile = Resolved strictClause \<and>
   GenerateContent (mkRequest (composePrompt allowNewState strictClause))
     \<in> set (handleSubmit (pantrySays strictClause) allowNewState) \<and>
   contains shoppingClause (composePrompt allowNewState strictClause) \<and>
   contains strictClause (composePrompt allowNewState strictClause)"
  by code_simp

lemma startsWith_iff: "startsWith n h \<longleftrightarrow> (\<exists>y. h = n @ y)"
  by (induction n h rule: startsWith.induct) auto

lemma endsWith_iff: "endsWith n h \<longleftrightarrow> (\<exists>x. h = x @ n)"
proof
  assume "endsWith n h"
  then obtain y where "rev h = rev n @ y"
    by (auto simp: endsWith_def startsWith_iff)
  then have "h = rev y @ n" by (metis rev_append rev_rev_ident)
  then show "\<exists>x. h = x @ n" ..
next
  assume "\<exists>x. h = x @ n"
  then show "endsWith n h" by (auto simp: endsWith_def startsWith_iff)
qed

lemma contains_iff: "contains n h \<longleftrightarrow> (\<exists>x y. h = x @ n @ y)"
proof (induction h)
  case Nil
  then show ?case by auto
next
  case (Cons d ds)
  show ?case
  proof
    assume "contains n (d # ds)"
    then consider "startsWith n (d # ds)" | "contains n ds" by auto
    then show "\<exists>x y. d # ds = x @ n @ y"
    proof cases
      case 1
      then obtain y where "d # ds = n @ y" by (auto simp: startsWith_iff)
      then have "d # ds = [] @ n @ y" by simp
      then show ?thesis by blast
    next
      case 2
      with Cons obtain x y where "ds = x @ n @ y" by blast
      then have "d # ds = (d # x) @ n @ y" by simp
      then show ?thesis by blast
    qed
  next
    assume "\<exists>x y. d # ds = x @ n @ y"
    then obtain x y where e: "d # ds = x @ n @ y" by blast
    show "contains n (d # ds)"
    proof (cases x)
      case Nil
      with e have "startsWith n (d # ds)" by (auto simp: startsWith_iff)
      then show ?thesis by simp
    next
      case (Cons a x')
      with e have "ds = x' @ n @ y" by simp
      with Cons.IH show ?thesis by auto
    qed
  qed
qed

lemma contains_inside: "contains n u \<Longrightarrow> contains n (a @ u @ b)"
proof -
  assume "contains n u"
  then obtain x y where "u = x @ n @ y" by (auto simp: contains_iff)
  then have "a @ u @ b = (a @ x) @ n @ (y @ b)" by simp
  then show ?thesis unfolding contains_iff by blast
qed

lemma contains_skip:
  "c \<notin> set F \<Longrightarrow> contains (c # n) (F @ R) \<Longrightarrow> contains (c # n) R"
  by (induction F) auto

lemma startsWith_append_cases:
  "startsWith n (a @ R) \<Longrightarrow> startsWith n a \<or> (\<exists>n2. n = a @ n2 \<and> startsWith n2 R)"
proof (induction n a rule: startsWith.induct)
  case (1 hay)
  then show ?case by simp
next
  case (2 c cs)
  then show ?case by simp
next
  case (3 c cs d ds)
  then show ?case by auto
qed

lemma contains_field:
  "contains n (u @ R) \<Longrightarrow>
   contains n u \<or>
   (\<exists>n1 n2. n = n1 @ n2 \<and> n1 \<noteq> [] \<and> n2 \<noteq> [] \<and> endsWith n1 u \<and> startsWith n2 R) \<or>
   contains n R"
proof (induction u)
  case Nil
  then show ?case by simp
next
  case (Cons d u)
  from Cons.prems consider "startsWith n ((d # u) @ R)" | "contains n (u @ R)" by auto
  then show ?case
  proof cases
    case 1
    from startsWith_append_cases [OF 1]
    consider "startsWith n (d # u)" | n2 where "n = (d # u) @ n2" "startsWith n2 R" by blast
    then show ?thesis
    proof cases
      case 1
      then show ?thesis by simp
    next
      case 2
      show ?thesis
      proof (cases "n2 = []")
        case True
        with 2 have "startsWith n (d # u)" by (simp add: startsWith_iff)
        then show ?thesis by simp
      next
        case False
        have "endsWith (d # u) (d # u)" by (simp add: endsWith_iff)
        with 2 False show ?thesis by blast
      qed
    qed
  next
    case 2
    from Cons.IH [OF 2] show ?thesis
    proof (elim disjE exE conjE)
      assume "contains n u"
      then show ?thesis by simp
    next
      fix n1 n2
      assume a: "n = n1 @ n2" "n1 \<noteq> []" "n2 \<noteq> []" "endsWith n1 u" "startsWith n2 R"
      from a(4) have "endsWith n1 (d # u)" by (auto simp: endsWith_iff intro: exI [of _ "d # _"])
      with a show ?thesis by blast
    next
      assume "contains n R"
      then show ?thesis by simp
    qed
  qed
qed

lemma last_char_unique:
  assumes "c \<notin> set d" and "a @ c # b = d @ [c]"
  shows "a = d \<and> b = []"
proof (cases "b = []")
  case True
  with assms(2) show ?thesis by simp
next
  case False
  then have "a @ c # b = (a @ c # butlast b) @ [last b]" by simp
  with assms(2) have "a @ c # butlast b = d" by (metis append1_eq_conv)
  with assms(1) show ?thesis by auto
qed

lemma two_char_split:
  assumes "c \<notin> set A" and "c \<notin> set B" and "a @ c # b = A @ c # B @ [c]"
  shows "(a = A \<and> b = B @ [c]) \<or> (a = A @ c # B \<and> b = [])"
proof -
  from assms(3) obtain us where
    "(a = A @ us \<and> us @ c # b = c # B @ [c]) \<or> (a @ us = A \<and> c # b = us @ c # B @ [c])"
    by (auto simp: append_eq_append_conv2)
  then show ?thesis
  proof
    assume h: "a = A @ us \<and> us @ c # b = c # B @ [c]"
    show ?thesis
    proof (cases us)
      case Nil
      with h show ?thesis by simp
    next
      case (Cons x us')
      with h have "x = c" "us' @ c # b = B @ [c]" by simp_all
      with last_char_unique [OF assms(2)] have "us' = B \<and> b = []" by blast
      with h Cons \<open>x = c\<close> show ?thesis by simp
    qed
  next
    assume h: "a @ us = A \<and> c # b = us @ c # B @ [c]"
    show ?thesis
    proof (cases us)
      case Nil
      with h show ?thesis by simp
    next
      case (Cons x us')
      with h have "x = c" by simp
      with h Cons have "c \<in> set A" by auto
      with assms(1) show ?thesis by simp
    qed
  qed
qed

lemma contains_field_char:
  assumes "contains n (u @ c # R)"
  shows "contains n u \<or>
         (\<exists>n1 n2. n = n1 @ c # n2 \<and> n1 \<noteq> [] \<and> endsWith n1 u \<and> startsWith n2 R) \<or>
         contains n (c # R)"
proof -
  from contains_field [OF assms]
  consider "contains n u"
    | n1 n2 where "n = n1 @ n2" "n1 \<noteq> []" "n2 \<noteq> []" "endsWith n1 u" "startsWith n2 (c # R)"
    | "contains n (c # R)"
    by blast
  then show ?thesis
  proof cases
    case 2
    from 2(3,5) obtain n2' where "n2 = c # n2'" "startsWith n2' R"
      by (cases n2) auto
    with 2 show ?thesis by blast
  qed auto
qed

lemma strict_parts:
  "strictClause = butlast strictClause @ ''.''"
  "CHR ''.'' \<notin> set (butlast strictClause)"
  "CHR 0x0A \<notin> set strictClause"
  "strictClause = CHR ''S'' # tl strictClause"
  by (simp_all add: strictClause_def)

lemma strict_after_field_dot:
  assumes "contains strictClause (u @ CHR ''.'' # R)"
  shows "contains strictClause u \<or> endsWith (butlast strictClause) u \<or>
         contains strictClause (CHR ''.'' # R)"
proof -
  from contains_field_char [OF assms]
  consider "contains strictClause u"
    | n1 n2 where "strictClause = n1 @ CHR ''.'' # n2" "endsWith n1 u"
    | "contains strictClause (CHR ''.'' # R)"
    by blast
  then show ?thesis
  proof cases
    case 2
    from 2(1) strict_parts(1) have "n1 @ CHR ''.'' # n2 = butlast strictClause @ [CHR ''.'']"
      by simp
    from last_char_unique [OF strict_parts(2) this] 2(2) show ?thesis by simp
  qed auto
qed

lemma strict_after_field_nl:
  assumes "contains strictClause (u @ CHR 0x0A # R)"
  shows "contains strictClause u \<or> contains strictClause (CHR 0x0A # R)"
proof -
  from contains_field_char [OF assms]
  consider "contains strictClause u"
    | n1 n2 where "strictClause = n1 @ CHR 0x0A # n2"
    | "contains strictClause (CHR 0x0A # R)"
    by blast
  then show ?thesis
  proof cases
    case 2
    then have "CHR 0x0A \<in> set strictClause" by (metis in_set_conv_decomp)
    with strict_parts(3) show ?thesis by simp
  qed auto
qed

lemma prompt_shape:
  "composePrompt s c =
     (nl @ indent @ ''I am a '') @ userType s @ CHR ''.'' #
     ('' I am planning meals for '' @ Number_toString (numPeople s) @
      ('' person(s).'' @ nl @ indent @ ''My diet preference is '') @ diet s @ CHR ''.'' #
      ((nl @ indent @ ''Please suggest recipes for the following meals: '') @
       selectedMealNames (selectedMeals s) @ CHR ''.'' #
       ((nl @ indent @ ''The pantry and equipment list is as follows:'' @ nl @ indent) @
        c @ CHR 0x0A #
        (indent @ nl @ indent @ pantryInstruction (pantryOption s) @ promptTail))))"
  by (simp add: composePrompt_def promptHead_def nl_def)

lemma strict_in_allowNew_prompt:
  assumes a: "pantryOption s = ''allowNew''"
    and c: "contains strictClause (composePrompt s c)"
  shows "(\<exists>u \<in> set (promptFields s @ [c]). contains strictClause u) \<or>
         (\<exists>u \<in> set (promptFields s). endsWith (butlast strictClause) u)"
proof -
  let ?S = "CHR ''S''"
  let ?F5 = "indent @ nl @ indent @ pantryInstruction (pantryOption s) @ promptTail"
  let ?X3 = "(nl @ indent @ ''The pantry and equipment list is as follows:'' @ nl @ indent) @
        c @ CHR 0x0A # ?F5"
  let ?X2 = "(nl @ indent @ ''Please suggest recipes for the following meals: '') @
       selectedMealNames (selectedMeals s) @ CHR ''.'' # ?X3"
  let ?X1 = "'' I am planning meals for '' @ Number_toString (numPeople s) @
      ('' person(s).'' @ nl @ indent @ ''My diet preference is '') @ diet s @ CHR ''.'' # ?X2"
  note sk = contains_skip [of ?S _ "tl strictClause", folded strict_parts(4)]
  have f5: "?S \<notin> set ?F5"
    using a S_not_in_shopping tail_chars
    by (simp add: pantryInstruction_def indent_def nl_def)
  from c have "contains strictClause ((nl @ indent @ ''I am a '') @ userType s @ CHR ''.'' # ?X1)"
    by (simp only: prompt_shape)
  then have "contains strictClause (userType s @ CHR ''.'' # ?X1)"
    by (rule sk [rotated]) (simp add: nl_def indent_def)
  from strict_after_field_dot [OF this]
  consider "contains strictClause (userType s)" | "endsWith (butlast strictClause) (userType s)"
    | "contains strictClause (CHR ''.'' # ?X1)" by blast
  then show ?thesis
  proof cases
    case 3
    then have "contains strictClause (([CHR ''.''] @ '' I am planning meals for '') @
        Number_toString (numPeople s) @
      ('' person(s).'' @ nl @ indent @ ''My diet preference is '') @ diet s @ CHR ''.'' # ?X2)"
      by simp
    then have "contains strictClause (Number_toString (numPeople s) @
      ('' person(s).'' @ nl @ indent @ ''My diet preference is '') @ diet s @ CHR ''.'' # ?X2)"
      by (rule sk [rotated]) simp
    then have "contains strictClause
      (('' person(s).'' @ nl @ indent @ ''My diet preference is '') @ diet s @ CHR ''.'' # ?X2)"
      by (rule sk [rotated]) (rule Number_toString_no_S)
    then have "contains strictClause (diet s @ CHR ''.'' # ?X2)"
      by (rule sk [rotated]) (simp add: nl_def indent_def)
    from strict_after_field_dot [OF this]
    consider "contains strictClause (diet s)" | "endsWith (butlast strictClause) (diet s)"
      | "contains strictClause (CHR ''.'' # ?X2)" by blast
    then show ?thesis
    proof cases
      case 3
      then have "contains strictClause
         (([CHR ''.''] @ nl @ indent @ ''Please suggest recipes for the following meals: '') @
          selectedMealNames (selectedMeals s) @ CHR ''.'' # ?X3)"
        by simp
      then have "contains strictClause (selectedMealNames (selectedMeals s) @ CHR ''.'' # ?X3)"
        by (rule sk [rotated]) (simp add: nl_def indent_def)
      from strict_after_field_dot [OF this]
      consider "contains strictClause (selectedMealNames (selectedMeals s))"
        | "endsWith (butlast strictClause) (selectedMealNames (selectedMeals s))"
        | "contains strictClause (CHR ''.'' # ?X3)" by blast
      then show ?thesis
      proof cases
        case 3
        then have "contains strictClause
           (([CHR ''.''] @ nl @ indent @ ''The pantry and equipment list is as follows:'' @
             nl @ indent) @ c @ CHR 0x0A # ?F5)"
          by simp
        then have "contains strictClause (c @ CHR 0x0A # ?F5)"
          by (rule sk [rotated]) (simp add: nl_def indent_def)
        from strict_after_field_nl [OF this]
        consider "contains strictClause c" | "contains strictClause (CHR 0x0A # ?F5)" by blast
        then show ?thesis
        proof cases
          case 2
          from contains_set [OF 2] S_in_strict f5 show ?thesis by auto
        qed (simp add: promptFields_def)
      qed (simp_all add: promptFields_def)
    qed (simp_all add: promptFields_def)
  qed (simp_all add: promptFields_def)
qed

lemma shopping_parts:
  "shoppingClause = shoppingFirst @ CHR ''.'' # shoppingSecond @ ''.''"
  "butlast shoppingClause = shoppingFirst @ CHR ''.'' # shoppingSecond"
  "CHR ''.'' \<notin> set shoppingFirst"
  "CHR ''.'' \<notin> set shoppingSecond"
  "CHR 0x0A \<notin> set shoppingClause"
  "shoppingClause = CHR ''Y'' # tl shoppingClause"
  by (simp_all add: shoppingClause_def shoppingFirst_def shoppingSecond_def)

lemma Number_toString_no_Y: "CHR ''Y'' \<notin> set (Number_toString x)"
  using Number_toString_chars [of x] by (auto simp: numberChars_def)

lemma Y_chars:
  "CHR ''Y'' \<in> set shoppingClause"
  "CHR ''Y'' \<notin> set strictClause"
  "CHR ''Y'' \<notin> set promptTail"
  by (simp_all add: shoppingClause_def strictClause_def promptTail_def nl_def indent_def)

lemma shopping_after_field_dot:
  assumes c: "contains shoppingClause (u @ CHR ''.'' # R)"
    and r: "\<not> startsWith (shoppingSecond @ ''.'') R"
  shows "contains shoppingClause u \<or> endsWith (butlast shoppingClause) u \<or>
         contains shoppingClause (CHR ''.'' # R)"
proof -
  from contains_field_char [OF c]
  consider "contains shoppingClause u"
    | n1 n2 where "shoppingClause = n1 @ CHR ''.'' # n2" "endsWith n1 u" "startsWith n2 R"
    | "contains shoppingClause (CHR ''.'' # R)"
    by blast
  then show ?thesis
  proof cases
    case 2
    from 2(1) shopping_parts(1)
    have "n1 @ CHR ''.'' # n2 = shoppingFirst @ CHR ''.'' # shoppingSecond @ [CHR ''.'']"
      by simp
    from two_char_split [OF shopping_parts(3,4) this] 2(2,3) r shopping_parts(2)
    show ?thesis by auto
  qed auto
qed

lemma shopping_after_field_nl:
  assumes "contains shoppingClause (u @ CHR 0x0A # R)"
  shows "contains shoppingClause u \<or> contains shoppingClause (CHR 0x0A # R)"
proof -
  from contains_field_char [OF assms]
  consider "contains shoppingClause u"
    | n1 n2 where "shoppingClause = n1 @ CHR 0x0A # n2"
    | "contains shoppingClause (CHR 0x0A # R)"
    by blast
  then show ?thesis
  proof cases
    case 2
    then have "CHR 0x0A \<in> set shoppingClause" by (metis in_set_conv_decomp)
    with shopping_parts(5) show ?thesis by simp
  qed auto
qed

lemma shopping_in_pantryOnly_prompt:
  assumes a: "pantryOption s \<noteq> ''allowNew''"
    and c: "contains shoppingClause (composePrompt s c)"
  shows "(\<exists>u \<in> set (promptFields s @ [c]). contains shoppingClause u) \<or>
         (\<exists>u \<in> set (promptFields s). endsWith (butlast shoppingClause) u)"
proof -
  let ?Y = "CHR ''Y''"
  let ?F5 = "indent @ nl @ indent @ pantryInstruction (pantryOption s) @ promptTail"
  let ?X3 = "(nl @ indent @ ''The pantry and equipment list is as follows:'' @ nl @ indent) @
        c @ CHR 0x0A # ?F5"
  let ?X2 = "(nl @ indent @ ''Please suggest recipes for the following meals: '') @
       selectedMealNames (selectedMeals s) @ CHR ''.'' # ?X3"
  let ?X1 = "'' I am planning meals for '' @ Number_toString (numPeople s) @
      ('' person(s).'' @ nl @ indent @ ''My diet preference is '') @ diet s @ CHR ''.'' # ?X2"
  note sk = contains_skip [of ?Y _ "tl shoppingClause", folded shopping_parts(6)]
  have f5: "?Y \<notin> set ?F5"
    using a Y_chars(2,3)
    by (simp add: pantryInstruction_def indent_def nl_def)
  have r1: "\<not> startsWith (shoppingSecond @ ''.'') ?X1"
    by (simp add: shoppingSecond_def)
  have r2: "\<not> startsWith (shoppingSecond @ ''.'') ?X2"
    by (simp add: shoppingSecond_def nl_def)
  have r3: "\<not> startsWith (shoppingSecond @ ''.'') ?X3"
    by (simp add: shoppingSecond_def nl_def)
  from c have "contains shoppingClause ((nl @ indent @ ''I am a '') @ userType s @ CHR ''.'' # ?X1)"
    by (simp only: prompt_shape)
  then have "contains shoppingClause (userType s @ CHR ''.'' # ?X1)"
    by (rule sk [rotated]) (simp add: nl_def indent_def)
  from shopping_after_field_dot [OF this r1]
  consider "contains shoppingClause (userType s)"
    | "endsWith (butlast shoppingClause) (userType s)"
    | "contains shoppingClause (CHR ''.'' # ?X1)" by blast
  then show ?thesis
  proof cases
    case 3
    then have "contains shoppingClause (([CHR ''.''] @ '' I am planning meals for '') @
        Number_toString (numPeople s) @
      ('' person(s).'' @ nl @ indent @ ''My diet preference is '') @ diet s @ CHR ''.'' # ?X2)"
      by simp
    then have "contains shoppingClause (Number_toString (numPeople s) @
      ('' person(s).'' @ nl @ indent @ ''My diet preference is '') @ diet s @ CHR ''.'' # ?X2)"
      by (rule sk [rotated]) simp
    then have "contains shoppingClause
      (('' person(s).'' @ nl @ indent @ ''My diet preference is '') @ diet s @ CHR ''.'' # ?X2)"
      by (rule sk [rotated]) (rule Number_toString_no_Y)
    then have "contains shoppingClause (diet s @ CHR ''.'' # ?X2)"
      by (rule sk [rotated]) (simp add: nl_def indent_def)
    from shopping_after_field_dot [OF this r2]
    consider "contains shoppingClause (diet s)" | "endsWith (butlast shoppingClause) (diet s)"
      | "contains shoppingClause (CHR ''.'' # ?X2)" by blast
    then show ?thesis
    proof cases
      case 3
      then have "contains shoppingClause
         (([CHR ''.''] @ nl @ indent @ ''Please suggest recipes for the following meals: '') @
          selectedMealNames (selectedMeals s) @ CHR ''.'' # ?X3)"
        by simp
      then have "contains shoppingClause (selectedMealNames (selectedMeals s) @ CHR ''.'' # ?X3)"
        by (rule sk [rotated]) (simp add: nl_def indent_def)
      from shopping_after_field_dot [OF this r3]
      consider "contains shoppingClause (selectedMealNames (selectedMeals s))"
        | "endsWith (butlast shoppingClause) (selectedMealNames (selectedMeals s))"
        | "contains shoppingClause (CHR ''.'' # ?X3)" by blast
      then show ?thesis
      proof cases
        case 3
        then have "contains shoppingClause
           (([CHR ''.''] @ nl @ indent @ ''The pantry and equipment list is as follows:'' @
             nl @ indent) @ c @ CHR 0x0A # ?F5)"
          by simp
        then have "contains shoppingClause (c @ CHR 0x0A # ?F5)"
          by (rule sk [rotated]) (simp add: nl_def indent_def)
        from shopping_after_field_nl [OF this]
        consider "contains shoppingClause c" | "contains shoppingClause (CHR 0x0A # ?F5)"
          by blast
        then show ?thesis
        proof cases
          case 2
          from contains_set [OF 2] Y_chars(1) f5 show ?thesis by auto
        qed (simp add: promptFields_def)
      qed (simp_all add: promptFields_def)
    qed (simp_all add: promptFields_def)
  qed (simp_all add: promptFields_def)
qed

text \<open>The other direction: a field that holds a clause puts it into the prompt.\<close>

lemma field_in_prompt:
  assumes "u \<in> set (promptFields s @ [c])"
  shows "\<exists>a b. composePrompt s c = a @ u @ b"
proof -
  from assms consider "u = userType s" | "u = diet s"
    | "u = selectedMealNames (selectedMeals s)" | "u = c"
    by (auto simp: promptFields_def)
  then show ?thesis
  proof cases
    case 1
    show ?thesis unfolding 1 by (subst prompt_shape) blast
  next
    case 2
    have "composePrompt s c = ((nl @ indent @ ''I am a '') @ userType s @ CHR ''.'' #
     ('' I am planning meals for '' @ Number_toString (numPeople s) @
      ('' person(s).'' @ nl @ indent @ ''My diet preference is ''))) @ diet s @ CHR ''.'' #
      ((nl @ indent @ ''Please suggest recipes for the following meals: '') @
       selectedMealNames (selectedMeals s) @ CHR ''.'' #
       ((nl @ indent @ ''The pantry and equipment list is as follows:'' @ nl @ indent) @
        c @ CHR 0x0A #
        (indent @ nl @ indent @ pantryInstruction (pantryOption s) @ promptTail)))"
      by (subst prompt_shape) simp
    then show ?thesis unfolding 2 by blast
  next
    case 3
    have "composePrompt s c = ((nl @ indent @ ''I am a '') @ userType s @ CHR ''.'' #
     ('' I am planning meals for '' @ Number_toString (numPeople s) @
      ('' person(s).'' @ nl @ indent @ ''My diet preference is '') @ diet s @ CHR ''.'' #
      (nl @ indent @ ''Please suggest recipes for the following meals: ''))) @
       selectedMealNames (selectedMeals s) @ CHR ''.'' #
       ((nl @ indent @ ''The pantry and equipment list is as follows:'' @ nl @ indent) @
        c @ CHR 0x0A #
        (indent @ nl @ indent @ pantryInstruction (pantryOption s) @ promptTail))"
      by (subst prompt_shape) simp
    then show ?thesis unfolding 3 by blast
  next
    case 4
    have "composePrompt s c = ((nl @ indent @ ''I am a '') @ userType s @ CHR ''.'' #
     ('' I am planning meals for '' @ Number_toString (numPeople s) @
      ('' person(s).'' @ nl @ indent @ ''My diet preference is '') @ diet s @ CHR ''.'' #
      ((nl @ indent @ ''Please suggest recipes for the following meals: '') @
       selectedMealNames (selectedMeals s) @ CHR ''.'' #
       (nl @ indent @ ''The pantry and equipment list is as follows:'' @ nl @ indent)))) @
        c @ CHR 0x0A #
        (indent @ nl @ indent @ pantryInstruction (pantryOption s) @ promptTail)"
      by (subst prompt_shape) simp
    then show ?thesis unfolding 4 by blast
  qed
qed

lemma field_dot_in_prompt:
  assumes "u \<in> set (promptFields s)"
  shows "\<exists>a b. composePrompt s c = a @ u @ CHR ''.'' # b"
proof -
  from assms consider "u = userType s" | "u = diet s"
    | "u = selectedMealNames (selectedMeals s)"
    by (auto simp: promptFields_def)
  then show ?thesis
  proof cases
    case 1
    show ?thesis unfolding 1 by (subst prompt_shape) blast
  next
    case 2
    have "composePrompt s c = ((nl @ indent @ ''I am a '') @ userType s @ CHR ''.'' #
     ('' I am planning meals for '' @ Number_toString (numPeople s) @
      ('' person(s).'' @ nl @ indent @ ''My diet preference is ''))) @ diet s @ CHR ''.'' #
      ((nl @ indent @ ''Please suggest recipes for the following meals: '') @
       selectedMealNames (selectedMeals s) @ CHR ''.'' #
       ((nl @ indent @ ''The pantry and equipment list is as follows:'' @ nl @ indent) @
        c @ CHR 0x0A #
        (indent @ nl @ indent @ pantryInstruction (pantryOption s) @ promptTail)))"
      by (subst prompt_shape) simp
    then show ?thesis unfolding 2 by blast
  next
    case 3
    have "composePrompt s c = ((nl @ indent @ ''I am a '') @ userType s @ CHR ''.'' #
     ('' I am planning meals for '' @ Number_toString (numPeople s) @
      ('' person(s).'' @ nl @ indent @ ''My diet preference is '') @ diet s @ CHR ''.'' #
      (nl @ indent @ ''Please suggest recipes for the following meals: ''))) @
       selectedMealNames (selectedMeals s) @ CHR ''.'' #
       ((nl @ indent @ ''The pantry and equipment list is as follows:'' @ nl @ indent) @
        c @ CHR 0x0A #
        (indent @ nl @ indent @ pantryInstruction (pantryOption s) @ promptTail))"
      by (subst prompt_shape) simp
    then show ?thesis unfolding 3 by blast
  qed
qed

lemma clause_from_fields:
  assumes n: "n = butlast n @ ''.''"
    and f: "(\<exists>u \<in> set (promptFields s @ [c]). contains n u) \<or>
            (\<exists>u \<in> set (promptFields s). endsWith (butlast n) u)"
  shows "contains n (composePrompt s c)"
  using f
proof
  assume "\<exists>u \<in> set (promptFields s @ [c]). contains n u"
  then obtain u where u: "u \<in> set (promptFields s @ [c])" "contains n u" by blast
  from field_in_prompt [OF u(1)] obtain a b where "composePrompt s c = a @ u @ b" by blast
  with contains_inside [OF u(2)] show ?thesis by simp
next
  assume "\<exists>u \<in> set (promptFields s). endsWith (butlast n) u"
  then obtain u where u: "u \<in> set (promptFields s)" "endsWith (butlast n) u" by blast
  from u(2) obtain x where x: "u = x @ butlast n" by (auto simp: endsWith_iff)
  from field_dot_in_prompt [OF u(1)] obtain a b
    where "composePrompt s c = a @ u @ CHR ''.'' # b" by blast
  with x have "composePrompt s c = (a @ x) @ (butlast n @ ''.'') @ b" by simp
  with n have "composePrompt s c = (a @ x) @ n @ b" by simp
  then show ?thesis by (simp only: contains_append)
qed

lemma requests_of_handler:
  assumes "GenerateContent r \<in> set (handleSubmit p s)"
  shows "\<exists>f c. file' s = Some f \<and> fileToText p f = Resolved c \<and>
               r = mkRequest (composePrompt s c)"
proof -
  have o: "GenerateContent r \<notin> set (onResponse p x)" for x
    by (simp add: onResponse_def catchBlock_def finallyBlock_def split: sum.split)
  from assms obtain f where f: "file' s = Some f"
    and t: "GenerateContent r \<in> set (tryBlock p s f)"
    by (auto simp: handleSubmit_def split: option.splits bool.splits)
  from t o have "\<exists>c. fileToText p f = Resolved c \<and> r = mkRequest (composePrompt s c)"
    by (auto simp: tryBlock_def catchBlock_def finallyBlock_def Let_def
             split: if_splits settled.splits)
  with f show ?thesis by blast
qed

text \<open>
  C5, as the code has it. Every request the handler sends carries the prompt composed from
  the state and the text of the file. That prompt is the template with one pantry clause in
  its place after the file content: the shopping-list clause when \<^verbatim>\<open>pantryOption\<close> is
  \<^verbatim>\<open>allowNew\<close>, the strict clause otherwise (so when it is \<^verbatim>\<open>pantryOnly\<close>); the prompt
  contains that clause, and the two clauses differ. The other clause is in the prompt
  exactly when the embedded text brings it along: when the user type, the diet, the
  meal-time list or the file content contains it, or when one of the first three ends with
  the clause less its last full stop, which the full stop of the template completes.
\<close>

theorem one_pantry_clause:
  "(\<forall>r. GenerateContent r \<in> set (handleSubmit p s) \<longrightarrow>
        (\<exists>f c. file' s = Some f \<and> fileToText p f = Resolved c \<and>
                r = mkRequest (composePrompt s c))) \<and>
   (pantryOption s = ''allowNew'' \<longrightarrow>
      composePrompt s c =
        promptHead (userType s) (numPeople s) (diet s) (selectedMealNames (selectedMeals s)) c @
        shoppingClause @ promptTail \<and>
      contains shoppingClause (composePrompt s c) \<and>
      (contains strictClause (composePrompt s c) \<longleftrightarrow>
         (\<exists>u \<in> set (promptFields s @ [c]). contains strictClause u) \<or>
         (\<exists>u \<in> set (promptFields s). endsWith (butlast strictClause) u))) \<and>
   (pantryOption s \<noteq> ''allowNew'' \<longrightarrow>
      composePrompt s c =
        promptHead (userType s) (numPeople s) (diet s) (selectedMealNames (selectedMeals s)) c @
        strictClause @ promptTail \<and>
      contains strictClause (composePrompt s c) \<and>
      (contains shoppingClause (composePrompt s c) \<longleftrightarrow>
         (\<exists>u \<in> set (promptFields s @ [c]). contains shoppingClause u) \<or>
         (\<exists>u \<in> set (promptFields s). endsWith (butlast shoppingClause) u))) \<and>
   shoppingClause \<noteq> strictClause"
proof (intro conjI impI allI)
  let ?h = "promptHead (userType s) (numPeople s) (diet s) (selectedMealNames (selectedMeals s)) c"
  fix r
  assume "GenerateContent r \<in> set (handleSubmit p s)"
  then show "\<exists>f c. file' s = Some f \<and> fileToText p f = Resolved c \<and>
                   r = mkRequest (composePrompt s c)"
    by (rule requests_of_handler)
next
  let ?h = "promptHead (userType s) (numPeople s) (diet s) (selectedMealNames (selectedMeals s)) c"
  assume a: "pantryOption s = ''allowNew''"
  then show eq: "composePrompt s c = ?h @ shoppingClause @ promptTail"
    by (simp add: composePrompt_def pantryInstruction_def)
  then show "contains shoppingClause (composePrompt s c)"
    by (simp add: contains_append)
  show "contains strictClause (composePrompt s c) \<longleftrightarrow>
         (\<exists>u \<in> set (promptFields s @ [c]). contains strictClause u) \<or>
         (\<exists>u \<in> set (promptFields s). endsWith (butlast strictClause) u)"
    using strict_in_allowNew_prompt [OF a] clause_from_fields [OF strict_parts(1)]
    by blast
next
  let ?h = "promptHead (userType s) (numPeople s) (diet s) (selectedMealNames (selectedMeals s)) c"
  assume a: "pantryOption s \<noteq> ''allowNew''"
  then show eq: "composePrompt s c = ?h @ strictClause @ promptTail"
    by (simp add: composePrompt_def pantryInstruction_def)
  then show "contains strictClause (composePrompt s c)"
    by (simp add: contains_append)
  have n: "shoppingClause = butlast shoppingClause @ ''.''"
    using shopping_parts(1,2) by simp
  show "contains shoppingClause (composePrompt s c) \<longleftrightarrow>
         (\<exists>u \<in> set (promptFields s @ [c]). contains shoppingClause u) \<or>
         (\<exists>u \<in> set (promptFields s). endsWith (butlast shoppingClause) u)"
    using shopping_in_pantryOnly_prompt [OF a] clause_from_fields [OF n]
    by blast
next
  show "shoppingClause \<noteq> strictClause"
    using S_in_strict S_not_in_shopping by metis
qed

text \<open>
  The sample form, user type \<^verbatim>\<open>Student\<close>, with the pantry text \<^verbatim>\<open>Salt, rice\<close> under both
  options, and with a pantry text that quotes the strict clause.
\<close>

theorem one_pantry_clause_witness:
  "pantryOption readyState = ''pantryOnly'' \<and> userType readyState = ''Student'' \<and>
   contains strictClause (composePrompt readyState ''Salt, rice'') \<and>
   \<not> contains shoppingClause (composePrompt readyState ''Salt, rice'') \<and>
   pantryOption allowNewState = ''allowNew'' \<and> userType allowNewState = ''Student'' \<and>
   contains shoppingClause (composePrompt allowNewState ''Salt, rice'') \<and>
   \<not> contains strictClause (composePrompt allowNewState ''Salt, rice'') \<and>
   contains strictClause (composePrompt allowNewState (''Salt. '' @ strictClause)) \<and>
   GenerateContent (mkRequest (composePrompt allowNewState ''Salt, rice''))
     \<in> set (handleSubmit (pantrySays ''Salt, rice'') allowNewState) \<and>
   file' allowNewState = Some pantryFile \<and>
   fileToText (pantrySays ''Salt, rice'') pantryFile = Resolved ''Salt, rice''"
proof -
  let ?c = "''Salt, rice''"
  have 1: "pantryOption readyState = ''pantryOnly''" "userType readyState = ''Student''"
    "pantryOption readyState \<noteq> ''allowNew''"
    by code_simp+
  have 2: "\<not> ((\<exists>u \<in> set (promptFields readyState @ [?c]). contains shoppingClause u) \<or>
              (\<exists>u \<in> set (promptFields readyState). endsWith (butlast shoppingClause) u))"
    by code_simp
  have 3: "pantryOption allowNewState = ''allowNew''" "userType allowNewState = ''Student''"
    by code_simp+
  have 4: "\<not> ((\<exists>u \<in> set (promptFields allowNewState @ [?c]). contains strictClause u) \<or>
              (\<exists>u \<in> set (promptFields allowNewState). endsWith (butlast strictClause) u))"
    by code_simp
  have 5: "\<exists>u \<in> set (promptFields allowNewState @ [''Salt. '' @ strictClause]).
             contains strictClause u"
    by code_simp
  have 6: "GenerateContent (mkRequest (composePrompt allowNewState ?c))
             \<in> set (handleSubmit (pantrySays ?c) allowNewState)"
    by code_simp
  have 7: "file' allowNewState = Some pantryFile"
    "fileToText (pantrySays ?c) pantryFile = Resolved ?c"
    by code_simp+
  from one_pantry_clause [of "pantrySays ?c" readyState ?c] 1(3) 2
  have 8: "contains strictClause (composePrompt readyState ?c) \<and>
           \<not> contains shoppingClause (composePrompt readyState ?c)"
    by blast
  from one_pantry_clause [of "pantrySays ?c" allowNewState ?c] 3(1) 4
  have 9: "contains shoppingClause (composePrompt allowNewState ?c) \<and>
           \<not> contains strictClause (composePrompt allowNewState ?c)"
    by blast
  from one_pantry_clause [of "pantrySays ?c" allowNewState "''Salt. '' @ strictClause"] 3(1) 5
  have 10: "contains strictClause (composePrompt allowNewState (''Salt. '' @ strictClause))"
    by blast
  from 1 3 6 7 8 9 10 show ?thesis by blast
qed

subsection \<open>Rendering a conforming response\<close>

lemma textNodes_Cons [simp]: "textNodes (c # cs) = [Text (c # cs)]"
  by (simp add: textNodes_def)

lemma conforms_STRING: "conforms STRING v \<Longrightarrow> \<exists>s. stringOf v = Some s"
  by (cases v) simp_all

lemma conforms_strings:
  "list_all (conforms STRING) vs \<Longrightarrow> \<exists>xs. stringsOf vs = Some xs"
proof (induction vs)
  case Nil
  then show ?case by simp
next
  case (Cons v vs)
  from Cons.prems have "conforms STRING v" by simp
  then obtain s where s: "stringOf v = Some s" using conforms_STRING by blast
  from Cons.prems have "list_all (conforms STRING) vs" by simp
  then obtain xs where xs: "stringsOf vs = Some xs" using Cons.IH by blast
  from s xs show ?case by simp
qed

lemma conforms_string_array:
  assumes "conforms (ARRAY STRING d) v"
  shows "\<exists>xs. stringArrayOf v = Some xs"
proof -
  from assms obtain vs where v: "v = JArr vs" and a: "list_all (conforms STRING) vs"
    by (cases v) simp_all
  from conforms_strings [OF a] v show ?thesis by simp
qed

lemma conforms_mealSchema:
  "conforms mealSchema (JObj kvs) =
     ((map_of kvs ''mealType'' \<noteq> None \<and> map_of kvs ''recipeName'' \<noteq> None \<and>
       map_of kvs ''ingredients'' \<noteq> None \<and> map_of kvs ''instructions'' \<noteq> None) \<and>
      (case map_of kvs ''mealType'' of None \<Rightarrow> True | Some v \<Rightarrow> conforms STRING v) \<and>
      (case map_of kvs ''recipeName'' of None \<Rightarrow> True | Some v \<Rightarrow> conforms STRING v) \<and>
      (case map_of kvs ''ingredients'' of None \<Rightarrow> True
       | Some v \<Rightarrow> conforms (ARRAY STRING None) v) \<and>
      (case map_of kvs ''instructions'' of None \<Rightarrow> True | Some v \<Rightarrow> conforms STRING v) \<and>
      (case map_of kvs ''shoppingList'' of None \<Rightarrow> True
       | Some v \<Rightarrow>
           conforms
             (ARRAY STRING
                (Some ''List of ingredients to buy. Only include if new ingredients are needed.''))
             v))"
  unfolding mealSchema_def by (simp add: conj_assoc)

lemma conforms_meal:
  assumes "conforms mealSchema m"
  shows "\<exists>ml. mealOf m = Some ml"
proof -
  from assms obtain kvs where m: "m = JObj kvs"
    by (cases m) (simp_all add: mealSchema_def)
  note c = assms [unfolded m conforms_mealSchema]
  from c obtain a where a: "map_of kvs ''mealType'' = Some a" by blast
  from c obtain b where b: "map_of kvs ''recipeName'' = Some b" by blast
  from c obtain i where i: "map_of kvs ''ingredients'' = Some i" by blast
  from c obtain d where d: "map_of kvs ''instructions'' = Some d" by blast
  from c a have "conforms STRING a" by simp
  then obtain mt where mt: "stringOf a = Some mt" using conforms_STRING by blast
  from c b have "conforms STRING b" by simp
  then obtain rn where rn: "stringOf b = Some rn" using conforms_STRING by blast
  from c i have "conforms (ARRAY STRING None) i" by simp
  then obtain ing where ing: "stringArrayOf i = Some ing" using conforms_string_array by blast
  from c d have "conforms STRING d" by simp
  then obtain ins where ins: "stringOf d = Some ins" using conforms_STRING by blast
  show ?thesis
  proof (cases "map_of kvs ''shoppingList''")
    case None
    with a b i d mt rn ing ins show ?thesis by (simp add: m mealOf_def)
  next
    case (Some sl)
    with c have "conforms (ARRAY STRING
           (Some ''List of ingredients to buy. Only include if new ingredients are needed.'')) sl"
      by simp
    then obtain xs where "stringArrayOf sl = Some xs"
      using conforms_string_array by blast
    with Some a b i d mt rn ing ins show ?thesis by (simp add: m mealOf_def)
  qed
qed

lemma conforms_meals:
  "list_all (conforms mealSchema) ms \<Longrightarrow> \<exists>mls. map mealOf ms = map Some mls"
proof (induction ms)
  case Nil
  then show ?case by simp
next
  case (Cons m ms)
  then obtain ml mls where "mealOf m = Some ml" "map mealOf ms = map Some mls"
    using conforms_meal by fastforce
  then have "map mealOf (m # ms) = map Some (ml # mls)" by simp
  then show ?case by blast
qed

lemma conforms_response:
  assumes "conforms responseSchema v"
  shows "\<exists>kvs. v = JObj kvs \<and>
           (map_of kvs ''meals'' = None \<or>
            (\<exists>ms. map_of kvs ''meals'' = Some (JArr ms) \<and> list_all (conforms mealSchema) ms))"
proof -
  from assms obtain kvs where v: "v = JObj kvs"
    by (cases v) (simp_all add: responseSchema_def)
  show ?thesis
  proof (cases "map_of kvs ''meals''")
    case None
    with v show ?thesis by simp
  next
    case (Some x)
    with assms have "conforms (ARRAY mealSchema None) x"
      unfolding v responseSchema_def by simp
    then obtain ms where "x = JArr ms" "list_all (conforms mealSchema) ms"
      by (cases x) simp_all
    with v Some show ?thesis by simp
  qed
qed


lemma stringOf_SomeD: "stringOf v = Some s \<Longrightarrow> v = JStr s"
  by (cases v) simp_all

lemma stringArrayOf_SomeD:
  "stringArrayOf v = Some xs \<Longrightarrow> \<exists>vs. v = JArr vs \<and> stringsOf vs = Some xs"
  by (cases v) simp_all

lemma bind_stringOf:
  "Option.bind x stringOf = Some s \<Longrightarrow> x = Some (JStr s)"
  by (cases x) (auto dest: stringOf_SomeD)

lemma bind_stringArrayOf:
  "Option.bind x stringArrayOf = Some xs \<Longrightarrow> \<exists>vs. x = Some (JArr vs) \<and> stringsOf vs = Some xs"
  by (cases x) (auto dest: stringArrayOf_SomeD)

lemma mealOf_SomeD:
  assumes "mealOf m = Some ml"
  shows "\<exists>kvs vs. m = JObj kvs \<and>
           map_of kvs ''mealType'' = Some (JStr (mealType ml)) \<and>
           map_of kvs ''recipeName'' = Some (JStr (recipeName ml)) \<and>
           map_of kvs ''ingredients'' = Some (JArr vs) \<and>
           stringsOf vs = Some (ingredients ml) \<and>
           map_of kvs ''instructions'' = Some (JStr (instructions ml)) \<and>
           (case shoppingList ml of
              None \<Rightarrow> map_of kvs ''shoppingList'' = None
            | Some xs \<Rightarrow>
                \<exists>ws. map_of kvs ''shoppingList'' = Some (JArr ws) \<and> stringsOf ws = Some xs)"
proof -
  from assms obtain kvs where m: "m = JObj kvs"
    by (cases m) (simp_all add: mealOf_def)
  from assms obtain mt rn ing ins where
    b: "Option.bind (map_of kvs ''mealType'') stringOf = Some mt"
       "Option.bind (map_of kvs ''recipeName'') stringOf = Some rn"
       "Option.bind (map_of kvs ''ingredients'') stringArrayOf = Some ing"
       "Option.bind (map_of kvs ''instructions'') stringOf = Some ins"
    unfolding m mealOf_def by (simp split: option.splits)
  from bind_stringArrayOf [OF b(3)] obtain vs where
    vs: "map_of kvs ''ingredients'' = Some (JArr vs)" "stringsOf vs = Some ing" by blast
  note l = bind_stringOf [OF b(1)] bind_stringOf [OF b(2)] bind_stringOf [OF b(4)]
  show ?thesis
  proof (cases "map_of kvs ''shoppingList''")
    case None
    with assms b have "ml = \<lparr> mealType = mt, recipeName = rn, ingredients = ing,
                           instructions = ins, shoppingList = None \<rparr>"
      unfolding m mealOf_def by simp
    with None l vs m show ?thesis by simp
  next
    case (Some sl)
    with assms b obtain xs where xs: "stringArrayOf sl = Some xs"
      and ml: "ml = \<lparr> mealType = mt, recipeName = rn, ingredients = ing,
                           instructions = ins, shoppingList = Some xs \<rparr>"
      unfolding m mealOf_def by (simp split: option.splits)
    from stringArrayOf_SomeD [OF xs] obtain ws where "sl = JArr ws" "stringsOf ws = Some xs"
      by blast
    with Some ml l vs m show ?thesis by simp
  qed
qed

lemma items_render:
  "stringsOf vs = Some xs \<Longrightarrow>
   reconcileAll (map (\<lambda>item. VElem ''li'' [VVal item]) vs) = Inr (itemNodes xs)"
proof (induction vs arbitrary: xs)
  case Nil
  then show ?case by (simp add: itemNodes_def)
next
  case (Cons v vs)
  then obtain s ss where s: "stringOf v = Some s" "stringsOf vs = Some ss" "xs = s # ss"
    by (auto split: option.splits)
  then have "v = JStr s" by (cases v) simp_all
  with Cons.IH [OF s(2)] s(3) show ?case by (simp add: itemNodes_def)
qed

lemma stringsOf_Nil: "stringsOf ws = Some [] \<Longrightarrow> ws = []"
  by (cases ws) (auto split: option.splits)

lemma shopping_render:
  assumes "case sh of
             None \<Rightarrow> sl = Undefined
           | Some xs \<Rightarrow> \<exists>ws. sl = JArr ws \<and> stringsOf ws = Some xs"
  shows "\<exists>vs. shoppingSection sl = Inr vs \<and>
           reconcileAll vs =
             Inr (case sh of
                    None \<Rightarrow> []
                  | Some xs \<Rightarrow>
                      if xs = [] then []
                      else [Elem ''div'' [Elem ''h5'' [Text ''Shopping List''],
                                          Elem ''ul'' (itemNodes xs)]])"
proof (cases sh)
  case None
  with assms show ?thesis by (simp add: shoppingSection_def)
next
  case (Some xs)
  with assms obtain ws where ws: "sl = JArr ws" "stringsOf ws = Some xs" by auto
  show ?thesis
  proof (cases "ws = []")
    case True
    with ws Some show ?thesis by (simp add: shoppingSection_def)
  next
    case False
    with ws(2) have "xs \<noteq> []" by (cases ws) (auto split: option.splits)
    with False ws Some items_render [OF ws(2)] show ?thesis
      by (simp add: shoppingSection_def)
  qed
qed

lemma card_render:
  assumes "mealOf m = Some ml"
  shows "\<exists>vc. mealCard m = Inr vc \<and> reconcile vc = Inr [shownCard ml]"
proof -
  from mealOf_SomeD [OF assms] obtain kvs vs where
    m: "m = JObj kvs"
    and p: "map_of kvs ''mealType'' = Some (JStr (mealType ml))"
      "map_of kvs ''recipeName'' = Some (JStr (recipeName ml))"
      "map_of kvs ''ingredients'' = Some (JArr vs)"
      "map_of kvs ''instructions'' = Some (JStr (instructions ml))"
    and vs: "stringsOf vs = Some (ingredients ml)"
    and sh: "case shoppingList ml of
              None \<Rightarrow> map_of kvs ''shoppingList'' = None
            | Some xs \<Rightarrow>
                \<exists>ws. map_of kvs ''shoppingList'' = Some (JArr ws) \<and> stringsOf ws = Some xs"
    by blast
  obtain sl where sl: "getProp m ''shoppingList'' = Inr sl"
    and sl': "case shoppingList ml of
             None \<Rightarrow> sl = Undefined
           | Some xs \<Rightarrow> \<exists>ws. sl = JArr ws \<and> stringsOf ws = Some xs"
    using sh unfolding m by (cases "shoppingList ml") auto
  from shopping_render [OF sl'] obtain shop where
    shop: "shoppingSection sl = Inr shop"
      "reconcileAll shop =
             Inr (case shoppingList ml of
                    None \<Rightarrow> []
                  | Some xs \<Rightarrow>
                      if xs = [] then []
                      else [Elem ''div'' [Elem ''h5'' [Text ''Shopping List''],
                                          Elem ''ul'' (itemNodes xs)]])"
    by blast
  let ?items = "map (\<lambda>item. VElem ''li'' [VVal item]) vs"
  let ?vc = "VElem ''div''
               ([VElem ''h3'' [VVal (JStr (mealType ml))],
                 VElem ''h4'' [VVal (JStr (recipeName ml))]] @ shop @
                [VElem ''h5'' [VVal (JStr ''Ingredients'')], VElem ''ul'' ?items,
                 VElem ''h5'' [VVal (JStr ''Instructions'')],
                 VElem ''p'' [VVal (JStr (instructions ml))]])"
  have g: "getProp m ''mealType'' = Inr (JStr (mealType ml))"
    "getProp m ''recipeName'' = Inr (JStr (recipeName ml))"
    "getProp m ''ingredients'' = Inr (JArr vs)"
    "getProp m ''instructions'' = Inr (JStr (instructions ml))"
    unfolding m using p by simp_all
  have c: "mealCard m = Inr ?vc"
    by (simp add: mealCard_def g sl shop(1))
  have ra: "reconcileAll (xs @ ys) =
      (case reconcileAll xs of Inl e \<Rightarrow> Inl e
       | Inr ns \<Rightarrow> (case reconcileAll ys of Inl e \<Rightarrow> Inl e | Inr ms \<Rightarrow> Inr (ns @ ms)))"
    for xs ys
    by (induction xs) (simp_all split: sum.splits)
  have "reconcile ?vc = Inr [shownCard ml]"
    by (simp add: ra shop(2) items_render [OF vs] shownCard_def)
  with c show ?thesis by blast
qed

lemma cards_render:
  "map mealOf ms = map Some mls \<Longrightarrow>
   \<exists>vcs. mealCards ms = Inr vcs \<and> reconcileAll vcs = Inr (map shownCard mls)"
proof (induction ms arbitrary: mls)
  case Nil
  then show ?case by simp
next
  case (Cons m ms)
  then obtain ml mls' where mls: "mls = ml # mls'" "mealOf m = Some ml"
    "map mealOf ms = map Some mls'"
    by (cases mls) auto
  from card_render [OF mls(2)] obtain vc where
    vc: "mealCard m = Inr vc" "reconcile vc = Inr [shownCard ml]" by blast
  from Cons.IH [OF mls(3)] obtain vcs where
    vcs: "mealCards ms = Inr vcs" "reconcileAll vcs = Inr (map shownCard mls')" by blast
  from vc vcs mls(1) show ?case by simp
qed

lemma submit_success:
  assumes "\<not> fieldsMissing s" and "file' s = Some f"
    and "\<not> clientThrows p" and "fileToText p f = Resolved c"
    and "generateContent p (mkRequest (composePrompt s c)) = Resolved r"
    and "JSON_parse p (parseArgument r) = Inr v"
    and "getProp v ''meals'' = Inr m"
  shows "submit p s = s\<lparr>loading := False, error := None, mealPlan := m\<rparr>"
  using assms
  by (simp add: submit_def handleSubmit_ready tryBlock_def onResponse_def run_def
      finallyBlock_def)

lemma stringsOf_map: "stringsOf vs = Some xs \<Longrightarrow> vs = map JStr xs"
proof (induction vs arbitrary: xs)
  case Nil
  then show ?case by simp
next
  case (Cons v vs)
  then obtain s ss where s: "stringOf v = Some s" "stringsOf vs = Some ss" "xs = s # ss"
    by (auto split: option.splits)
  from s(1) have "v = JStr s" by (rule stringOf_SomeD)
  with Cons.IH [OF s(2)] s(3) show ?case by simp
qed

lemma mealOf_fields:
  assumes "mealOf m = Some ml"
  shows "\<exists>kvs. m = JObj kvs \<and>
           map_of kvs ''mealType'' = Some (JStr (mealType ml)) \<and>
           map_of kvs ''recipeName'' = Some (JStr (recipeName ml)) \<and>
           map_of kvs ''ingredients'' = Some (JArr (map JStr (ingredients ml))) \<and>
           map_of kvs ''instructions'' = Some (JStr (instructions ml)) \<and>
           map_of kvs ''shoppingList'' = map_option (\<lambda>xs. JArr (map JStr xs)) (shoppingList ml)"
proof -
  from mealOf_SomeD [OF assms] obtain kvs vs where
    m: "m = JObj kvs"
    and p: "map_of kvs ''mealType'' = Some (JStr (mealType ml))"
      "map_of kvs ''recipeName'' = Some (JStr (recipeName ml))"
      "map_of kvs ''ingredients'' = Some (JArr vs)"
      "map_of kvs ''instructions'' = Some (JStr (instructions ml))"
    and vs: "stringsOf vs = Some (ingredients ml)"
    and sh: "case shoppingList ml of
              None \<Rightarrow> map_of kvs ''shoppingList'' = None
            | Some xs \<Rightarrow>
                \<exists>ws. map_of kvs ''shoppingList'' = Some (JArr ws) \<and> stringsOf ws = Some xs"
    by blast
  have "map_of kvs ''shoppingList'' = map_option (\<lambda>xs. JArr (map JStr xs)) (shoppingList ml)"
    using sh by (cases "shoppingList ml") (auto dest: stringsOf_map)
  with m p stringsOf_map [OF vs] show ?thesis by simp
qed

lemma meals_fields:
  "map mealOf ms = map Some mls \<Longrightarrow>
   list_all2
     (\<lambda>m ml. \<exists>kvs. m = JObj kvs \<and>
           map_of kvs ''mealType'' = Some (JStr (mealType ml)) \<and>
           map_of kvs ''recipeName'' = Some (JStr (recipeName ml)) \<and>
           map_of kvs ''ingredients'' = Some (JArr (map JStr (ingredients ml))) \<and>
           map_of kvs ''instructions'' = Some (JStr (instructions ml)) \<and>
           map_of kvs ''shoppingList'' = map_option (\<lambda>xs. JArr (map JStr xs)) (shoppingList ml))
     ms mls"
proof (induction ms arbitrary: mls)
  case Nil
  then show ?case by simp
next
  case (Cons m ms)
  then obtain ml mls' where mls: "mls = ml # mls'" "mealOf m = Some ml"
    "map mealOf ms = map Some mls'"
    by (cases mls) auto
  from mealOf_fields [OF mls(2)] Cons.IH [OF mls(3)] mls(1) show ?case by simp
qed

text \<open>
  C8. When a submission succeeds with a response that the platform parses to a value \<open>v\<close>
  conforming to the declared schema, \<open>v\<close> is an object, and what is stored and shown
  follows its \<^verbatim>\<open>meals\<close> property. Without that property (the schema does not require
  it) the result is \<^verbatim>\<open>undefined\<close> and nothing is shown. Otherwise the property is an
  array of objects with the fields of a \<^verbatim>\<open>Meal\<close>; that array is the result state, and
  what is shown is one card per element, in order, with the meal type, the recipe name,
  every ingredient in order and the instructions of that element (each as a text node,
  none for an empty string), and with the shopping-list block exactly when the element
  has a shopping list that is not empty.
\<close>

theorem conforming_response_rendered:
  assumes "\<not> fieldsMissing s" and "file' s = Some f"
    and "\<not> clientThrows p" and "fileToText p f = Resolved c"
    and "generateContent p (mkRequest (composePrompt s c)) = Resolved r"
    and "JSON_parse p (parseArgument r) = Inr v"
    and "conforms responseSchema v"
  shows "(\<exists>kvs. v = JObj kvs \<and>
           (case map_of kvs ''meals'' of
              None \<Rightarrow>
                mealPlan (submit p s) = Undefined \<and> renderOutput (submit p s) = Inr []
            | Some x \<Rightarrow>
                \<exists>ms mls.
                  x = JArr ms \<and> mealPlan (submit p s) = JArr ms \<and>
                  list_all2
                    (\<lambda>m ml. \<exists>fs. m = JObj fs \<and>
                       map_of fs ''mealType'' = Some (JStr (mealType ml)) \<and>
                       map_of fs ''recipeName'' = Some (JStr (recipeName ml)) \<and>
                       map_of fs ''ingredients'' = Some (JArr (map JStr (ingredients ml))) \<and>
                       map_of fs ''instructions'' = Some (JStr (instructions ml)) \<and>
                       map_of fs ''shoppingList'' =
                         map_option (\<lambda>xs. JArr (map JStr xs)) (shoppingList ml))
                    ms mls \<and>
                  renderOutput (submit p s) =
                    Inr [Elem ''section''
                           [Elem ''h2'' [Text ''Your Personalized Meal Plan''],
                            Elem ''div'' (map shownCard mls)]])) \<and>
         (\<forall>ml. shownCard ml =
            Elem ''div''
              ([Elem ''h3'' (textNodes (mealType ml)), Elem ''h4'' (textNodes (recipeName ml))] @
               (case shoppingList ml of
                  None \<Rightarrow> []
                | Some xs \<Rightarrow>
                    if xs = [] then []
                    else [Elem ''div'' [Elem ''h5'' [Text ''Shopping List''],
                                        Elem ''ul'' (map (\<lambda>x. Elem ''li'' (textNodes x)) xs)]]) @
               [Elem ''h5'' [Text ''Ingredients''],
                Elem ''ul'' (map (\<lambda>x. Elem ''li'' (textNodes x)) (ingredients ml)),
                Elem ''h5'' [Text ''Instructions''], Elem ''p'' (textNodes (instructions ml))])) \<and>
         (\<forall>t. textNodes t = (if t = [] then [] else [Text t]))"
proof (intro conjI allI)
  from conforms_response [OF assms(7)] obtain kvs where v: "v = JObj kvs"
    and k: "map_of kvs ''meals'' = None \<or>
            (\<exists>ms. map_of kvs ''meals'' = Some (JArr ms) \<and> list_all (conforms mealSchema) ms)"
    by blast
  let ?goal = "\<lambda>kvs. case map_of kvs ''meals'' of
              None \<Rightarrow>
                mealPlan (submit p s) = Undefined \<and> renderOutput (submit p s) = Inr []
            | Some x \<Rightarrow>
                \<exists>ms mls.
                  x = JArr ms \<and> mealPlan (submit p s) = JArr ms \<and>
                  list_all2
                    (\<lambda>m ml. \<exists>fs. m = JObj fs \<and>
                       map_of fs ''mealType'' = Some (JStr (mealType ml)) \<and>
                       map_of fs ''recipeName'' = Some (JStr (recipeName ml)) \<and>
                       map_of fs ''ingredients'' = Some (JArr (map JStr (ingredients ml))) \<and>
                       map_of fs ''instructions'' = Some (JStr (instructions ml)) \<and>
                       map_of fs ''shoppingList'' =
                         map_option (\<lambda>xs. JArr (map JStr xs)) (shoppingList ml))
                    ms mls \<and>
                  renderOutput (submit p s) =
                    Inr [Elem ''section''
                           [Elem ''h2'' [Text ''Your Personalized Meal Plan''],
                            Elem ''div'' (map shownCard mls)]]"
  from k have "?goal kvs"
  proof
    assume n: "map_of kvs ''meals'' = None"
    then have "getProp v ''meals'' = Inr Undefined" by (simp add: v)
    from submit_success [OF assms(1-6) this]
    have "mealPlan (submit p s) = Undefined \<and> renderOutput (submit p s) = Inr []"
      by (simp add: renderOutput_def resultsSection_def loaderSection_def errorSection_def)
    with n show ?thesis by simp
  next
    assume "\<exists>ms. map_of kvs ''meals'' = Some (JArr ms) \<and> list_all (conforms mealSchema) ms"
    then obtain ms where ms: "map_of kvs ''meals'' = Some (JArr ms)"
      "list_all (conforms mealSchema) ms" by blast
    from conforms_meals [OF ms(2)] obtain mls where mls: "map mealOf ms = map Some mls"
      by blast
    from cards_render [OF mls] obtain vcs where
      vcs: "mealCards ms = Inr vcs" "reconcileAll vcs = Inr (map shownCard mls)" by blast
    from ms(1) have "getProp v ''meals'' = Inr (JArr ms)" by (simp add: v)
    from submit_success [OF assms(1-6) this]
    have st: "submit p s = s\<lparr>loading := False, error := None, mealPlan := JArr ms\<rparr>" .
    have "renderOutput (submit p s) =
               Inr [Elem ''section''
                      [Elem ''h2'' [Text ''Your Personalized Meal Plan''],
                       Elem ''div'' (map shownCard mls)]]"
      unfolding st
      by (simp add: renderOutput_def resultsSection_def loaderSection_def errorSection_def vcs)
    with st meals_fields [OF mls] ms(1) show ?thesis by auto
  qed
  with v show "\<exists>kvs. v = JObj kvs \<and> ?goal kvs" by blast
qed (simp_all add: shownCard_def itemNodes_def textNodes_def split: option.split)

text \<open>The sample form, answered with the salad.\<close>

theorem conforming_response_rendered_witness:
  "\<not> fieldsMissing readyState \<and> file' readyState = Some pantryFile \<and>
   JSON_parse (respondWith saladText) saladText =
     Inr (JObj [(''meals'',
            JArr [JObj [(''mealType'', JStr ''lunch''), (''recipeName'', JStr ''Salad''),
                        (''ingredients'', JArr [JStr ''kale'', JStr ''oil'']),
                        (''instructions'', JStr ''Toss.''),
                        (''shoppingList'', JArr [JStr ''lemon''])]])]) \<and>
   conforms responseSchema
     (JObj [(''meals'',
            JArr [JObj [(''mealType'', JStr ''lunch''), (''recipeName'', JStr ''Salad''),
                        (''ingredients'', JArr [JStr ''kale'', JStr ''oil'']),
                        (''instructions'', JStr ''Toss.''),
                        (''shoppingList'', JArr [JStr ''lemon''])]])]) \<and>
   renderOutput (submit (respondWith saladText) readyState) =
     Inr [Elem ''section''
            [Elem ''h2'' [Text ''Your Personalized Meal Plan''],
             Elem ''div''
               [Elem ''div''
                  [Elem ''h3'' [Text ''lunch''], Elem ''h4'' [Text ''Salad''],
                   Elem ''div''
                     [Elem ''h5'' [Text ''Shopping List''],
                      Elem ''ul'' [Elem ''li'' [Text ''lemon'']]],
                   Elem ''h5'' [Text ''Ingredients''],
                   Elem ''ul'' [Elem ''li'' [Text ''kale''], Elem ''li'' [Text ''oil'']],
                   Elem ''h5'' [Text ''Instructions''],
                   Elem ''p'' [Text ''Toss.'']]]]]"
proof -
  let ?p = "respondWith saladText"
  let ?salad = "JObj [(''mealType'', JStr ''lunch''), (''recipeName'', JStr ''Salad''),
                        (''ingredients'', JArr [JStr ''kale'', JStr ''oil'']),
                        (''instructions'', JStr ''Toss.''),
                        (''shoppingList'', JArr [JStr ''lemon''])]"
  let ?v = "JObj [(''meals'', JArr [?salad])]"
  let ?ml = "\<lparr> mealType = ''lunch'', recipeName = ''Salad'',
               ingredients = [''kale'', ''oil''], instructions = ''Toss.'',
               shoppingList = Some [''lemon''] \<rparr>"
  have 1: "\<not> fieldsMissing readyState" by code_simp
  have 2: "file' readyState = Some pantryFile" by code_simp
  have 3: "\<not> clientThrows ?p" by (simp add: respondWith_def)
  have 4: "fileToText ?p pantryFile = Resolved ''rice, egg, wok''"
    by (simp add: respondWith_def)
  have 5: "generateContent ?p (mkRequest (composePrompt readyState ''rice, egg, wok''))
           = Resolved \<lparr> text' = Some saladText \<rparr>"
    by (simp add: respondWith_def)
  have 6: "JSON_parse ?p saladText = Inr ?v"
    unfolding saladText_def by code_simp
  then have parsed: "JSON_parse ?p (parseArgument \<lparr> text' = Some saladText \<rparr>) = Inr ?v"
    by (simp add: parseArgument_def)
  have 7: "conforms responseSchema ?v" by code_simp
  from conforming_response_rendered [OF 1 2 3 4 5 parsed 7]
  obtain mls where
    rel: "list_all2
            (\<lambda>m ml. \<exists>fs. m = JObj fs \<and>
               map_of fs ''mealType'' = Some (JStr (mealType ml)) \<and>
               map_of fs ''recipeName'' = Some (JStr (recipeName ml)) \<and>
               map_of fs ''ingredients'' = Some (JArr (map JStr (ingredients ml))) \<and>
               map_of fs ''instructions'' = Some (JStr (instructions ml)) \<and>
               map_of fs ''shoppingList'' =
                 map_option (\<lambda>xs. JArr (map JStr xs)) (shoppingList ml))
            [?salad] mls"
    and shown: "renderOutput (submit ?p readyState) =
                  Inr [Elem ''section''
                         [Elem ''h2'' [Text ''Your Personalized Meal Plan''],
                          Elem ''div'' (map shownCard mls)]]"
    by auto
  from rel obtain ml where ml: "mls = [ml]"
    by (auto simp: list_all2_Cons1)
  from rel ml have f: "mealType ml = ''lunch''" "recipeName ml = ''Salad''"
    "instructions ml = ''Toss.''"
    by auto
  from rel ml have i: "ingredients ml = [''kale'', ''oil'']"
    by (auto simp: map_eq_Cons_conv)
  from rel ml have l: "shoppingList ml = Some [''lemon'']"
    by (cases "shoppingList ml") (auto simp: map_eq_Cons_conv)
  from f i l have "shownCard ml = shownCard ?ml"
    by (simp add: shownCard_def)
  also have "shownCard ?ml =
      Elem ''div''
                  [Elem ''h3'' [Text ''lunch''], Elem ''h4'' [Text ''Salad''],
                   Elem ''div''
                     [Elem ''h5'' [Text ''Shopping List''],
                      Elem ''ul'' [Elem ''li'' [Text ''lemon'']]],
                   Elem ''h5'' [Text ''Ingredients''],
                   Elem ''ul'' [Elem ''li'' [Text ''kale''], Elem ''li'' [Text ''oil'']],
                   Elem ''h5'' [Text ''Instructions''],
                   Elem ''p'' [Text ''Toss.'']]"
    by (simp add: shownCard_def itemNodes_def)
  finally have "renderOutput (submit ?p readyState) =
     Inr [Elem ''section''
            [Elem ''h2'' [Text ''Your Personalized Meal Plan''],
             Elem ''div''
               [Elem ''div''
                  [Elem ''h3'' [Text ''lunch''], Elem ''h4'' [Text ''Salad''],
                   Elem ''div''
                     [Elem ''h5'' [Text ''Shopping List''],
                      Elem ''ul'' [Elem ''li'' [Text ''lemon'']]],
                   Elem ''h5'' [Text ''Ingredients''],
                   Elem ''ul'' [Elem ''li'' [Text ''kale''], Elem ''li'' [Text ''oil'']],
                   Elem ''h5'' [Text ''Instructions''],
                   Elem ''p'' [Text ''Toss.'']]]]]"
    using shown ml by simp
  with 1 2 6 7 show ?thesis by blast
qed

subsection \<open>The number of people\<close>

lemma fieldsMissing_numPeople: "fieldsMissing (s\<lparr>numPeople := n\<rparr>) = fieldsMissing s"
  by (simp add: fieldsMissing_def atLeastOneMealSelected_def)

text \<open>
  C10, as the code has it. The guard of the handler does not read \<^verbatim>\<open>numPeople\<close>: when the
  file, diet, user-type and meal-time conditions hold, a call of the handler passes the
  guard for every value (0, negative numbers and \<^verbatim>\<open>NaN\<close> included), sends the request
  once the file is read, and the prompt holds the value as \<^verbatim>\<open>toString\<close> prints it. The
  form does check it: with those conditions true, a click on the submit button runs the
  handler exactly when no request is in flight and the number field is valid, that is,
  when \<^verbatim>\<open>numPeople\<close> is a positive integer; otherwise the browser blocks the submission.
  Clearing the input field sets the value to 0, since \<^verbatim>\<open>Number("")\<close> is 0.
\<close>

theorem numPeople_precondition:
  assumes "file' s = Some f" and "diet s \<noteq> []" and "userType s \<noteq> []"
    and "\<exists>m \<in> set (selectedMeals s). snd m"
  shows "handleSubmit p (s\<lparr>numPeople := n\<rparr>) =
           [PreventDefault, SetLoading True, SetError None, SetMealPlan JNull] @
           tryBlock p (s\<lparr>numPeople := n\<rparr>) f \<and>
         (\<not> clientThrows p \<and> fileToText p f = Resolved c \<longrightarrow>
            GenerateContent (mkRequest (composePrompt (s\<lparr>numPeople := n\<rparr>) c))
              \<in> set (handleSubmit p (s\<lparr>numPeople := n\<rparr>))) \<and>
         (\<exists>rest. composePrompt (s\<lparr>numPeople := n\<rparr>) c =
            nl @ indent @ ''I am a '' @ userType s @ ''. I am planning meals for '' @
            Number_toString n @ '' person(s).'' @ rest) \<and>
         submitForm p (s\<lparr>numPeople := n\<rparr>) =
           (if \<not> loading s \<and> numberFieldValid n then handleSubmit p (s\<lparr>numPeople := n\<rparr>)
            else []) \<and>
         numberFieldValid n =
           (case n of Finite m e \<Rightarrow> 0 < m \<and> (0 \<le> e \<or> 10 ^ nat (- e) dvd m) | _ \<Rightarrow> False) \<and>
         numPeople (handleEvent s (NumPeopleChange [])) = Finite 0 0"
proof -
  let ?s = "s\<lparr>numPeople := n\<rparr>"
  have "\<not> fieldsMissing s"
    using assms by (auto simp: fieldsMissing_def atLeastOneMealSelected_def list_ex_iff)
  then have r: "\<not> fieldsMissing ?s" by (simp add: fieldsMissing_numPeople)
  have f: "file' ?s = Some f" using assms(1) by simp
  have h: "handleSubmit p ?s =
           [PreventDefault, SetLoading True, SetError None, SetMealPlan JNull] @ tryBlock p ?s f"
    by (rule handleSubmit_ready [OF r f])
  have g: "GenerateContent (mkRequest (composePrompt ?s c)) \<in> set (handleSubmit p ?s)"
    if "\<not> clientThrows p \<and> fileToText p f = Resolved c"
    using that unfolding h by (simp add: tryBlock_def Let_def)
  have e: "\<exists>rest. composePrompt ?s c =
            nl @ indent @ ''I am a '' @ userType s @ ''. I am planning meals for '' @
            Number_toString n @ '' person(s).'' @ rest"
    by (simp add: composePrompt_def promptHead_def)
  have b: "submitForm p ?s = (if \<not> loading s \<and> numberFieldValid n then handleSubmit p ?s else [])"
    using r assms(2,3) by (simp add: submitForm_def submitDisabled_def constraintsSatisfied_def)
  have v: "numberFieldValid n =
           (case n of Finite m e \<Rightarrow> 0 < m \<and> (0 \<le> e \<or> 10 ^ nat (- e) dvd m) | _ \<Rightarrow> False)"
    by (cases n) simp_all
  have c0: "numPeople (handleEvent s (NumPeopleChange [])) = Finite 0 0"
    by (simp add: Number_def trim_def)
  from h g e b v c0 show ?thesis by blast
qed

text \<open>The sample form with 3 typed into the number field.\<close>

theorem numPeople_precondition_witness:
  "file' readyState = Some pantryFile \<and> diet readyState \<noteq> [] \<and> userType readyState \<noteq> [] \<and>
   (''snack'', True) \<in> set (selectedMeals readyState) \<and>
   handleEvent readyState (NumPeopleChange ''3'') = readyState\<lparr>numPeople := Finite 3 0\<rparr> \<and>
   numberFieldValid (Finite 3 0) \<and>
   submitForm (respondWith stirFryText) (readyState\<lparr>numPeople := Finite 3 0\<rparr>) =
     handleSubmit (respondWith stirFryText) (readyState\<lparr>numPeople := Finite 3 0\<rparr>) \<and>
   GenerateContent (mkRequest (composePrompt (readyState\<lparr>numPeople := Finite 3 0\<rparr>) ''rice, egg, wok''))
     \<in> set (submitForm (respondWith stirFryText) (readyState\<lparr>numPeople := Finite 3 0\<rparr>)) \<and>
   contains ''I am planning meals for 3 person(s).''
     (composePrompt (readyState\<lparr>numPeople := Finite 3 0\<rparr>) ''rice, egg, wok'')"
proof -
  let ?p = "respondWith stirFryText"
  let ?s = "readyState\<lparr>numPeople := Finite 3 0\<rparr>"
  have 1: "file' readyState = Some pantryFile" by code_simp
  have 2: "diet readyState \<noteq> []" by code_simp
  have 3: "userType readyState \<noteq> []" by code_simp
  have 4: "(''snack'', True) \<in> set (selectedMeals readyState)" by code_simp
  then have 5: "\<exists>m \<in> set (selectedMeals readyState). snd m" by force
  have 6: "\<not> clientThrows ?p \<and> fileToText ?p pantryFile = Resolved ''rice, egg, wok''"
    by (simp add: respondWith_def)
  have 7: "contains ''I am planning meals for 3 person(s).''
     (composePrompt ?s ''rice, egg, wok'')" by code_simp
  have 8: "handleEvent readyState (NumPeopleChange ''3'') = ?s" by code_simp
  have 9: "numberFieldValid (Finite 3 0)" by simp
  have 10: "\<not> loading readyState" by code_simp
  note t = numPeople_precondition [OF 1 2 3 5, of ?p "Finite 3 0" "''rice, egg, wok''"]
  from t 6 have g: "GenerateContent (mkRequest (composePrompt ?s ''rice, egg, wok''))
     \<in> set (handleSubmit ?p ?s)"
    by blast
  from t 9 10 have b: "submitForm ?p ?s = handleSubmit ?p ?s"
    by simp
  from 1 2 3 4 7 8 9 g b show ?thesis by simp
qed

text \<open>
  C10 as stated fails twice. Clearing the field stores \<^verbatim>\<open>Number("")\<close>, which is 0 and not
  \<^verbatim>\<open>NaN\<close>. And with 0, with a negative number or with a fraction in the field the four
  conditions hold and the button is enabled, yet a click submits nothing: the browser
  blocks it for the number field.
\<close>

theorem blocked_input_counterexample:
  "Number [] = Finite 0 0 \<and>
   numPeople (handleEvent readyState (NumPeopleChange [])) = Finite 0 0 \<and>
   numPeople (handleEvent readyState (NumPeopleChange [])) \<noteq> NaN \<and>
   \<not> fieldsMissing (handleEvent readyState (NumPeopleChange [])) \<and>
   \<not> submitDisabled (handleEvent readyState (NumPeopleChange [])) \<and>
   submitForm (respondWith stirFryText) (handleEvent readyState (NumPeopleChange [])) = [] \<and>
   numPeople (handleEvent readyState (NumPeopleChange ''-2'')) = Finite (- 2) 0 \<and>
   \<not> submitDisabled (handleEvent readyState (NumPeopleChange ''-2'')) \<and>
   submitForm (respondWith stirFryText) (handleEvent readyState (NumPeopleChange ''-2'')) = [] \<and>
   numPeople (handleEvent readyState (NumPeopleChange ''2.5'')) = Finite 25 (- 1) \<and>
   \<not> submitDisabled (handleEvent readyState (NumPeopleChange ''2.5'')) \<and>
   submitForm (respondWith stirFryText) (handleEvent readyState (NumPeopleChange ''2.5'')) = []"
  by code_simp

end
